theory Spec2Isabelle
  imports Complex_Main "HOL-Library.Word" "HOL-Library.Log_Nat"
begin

section \<open>Strings\<close>

text \<open>
  A Go string is a sequence of bytes, and \<open>len\<close> and slicing count bytes.  The model
  takes \<^typ>\<open>string\<close> (a list of 8-bit characters) for it: \<^term>\<open>length\<close> is Go's
  \<open>len\<close>, \<^term>\<open>drop\<close> is the slice \<open>s[i:]\<close> for \<open>0 \<le> i \<le> len(s)\<close>.
\<close>

definition byte_of :: "char \<Rightarrow> nat" where
  "byte_of c = of_char c"

subsection \<open>UTF-8 framing\<close>

text \<open>
  A continuation byte is \<open>10xxxxxx\<close>.  \<open>utf8_framed\<close> checks that a byte sequence is a
  sequence of UTF-8 encodings as far as framing goes: every lead byte is followed by
  the number of continuation bytes it announces, and no continuation byte stands where
  a lead byte is expected.  (Overlong forms and surrogates are not looked at: the check
  is only used to see whether a slice cut an encoding in two.)
\<close>

definition is_cont :: "char \<Rightarrow> bool" where
  "is_cont c = (128 \<le> byte_of c \<and> byte_of c < 192)"

definition seq_len :: "char \<Rightarrow> nat" where
  "seq_len c =
     (let n = byte_of c in
      if n < 128 then 1
      else if 194 \<le> n \<and> n < 224 then 2
      else if 224 \<le> n \<and> n < 240 then 3
      else if 240 \<le> n \<and> n < 245 then 4
      else 0)"

fun utf8_framed_fuel :: "nat \<Rightarrow> string \<Rightarrow> bool" where
  "utf8_framed_fuel _ [] = True"
| "utf8_framed_fuel 0 (c # cs) = False"
| "utf8_framed_fuel (Suc k) (c # cs) =
     (let n = seq_len c in
      n \<noteq> 0 \<and> n - 1 \<le> length cs \<and> list_all is_cont (take (n - 1) cs) \<and>
      utf8_framed_fuel k (drop (n - 1) cs))"

definition utf8_framed :: "string \<Rightarrow> bool" where
  "utf8_framed s = utf8_framed_fuel (length s) s"

section \<open>format.go: TruncatePath\<close>

text \<open>
  \<^verbatim>\<open>
  func TruncatePath(path string, maxLen int) string {
      if len(path) <= maxLen { return path }
      if maxLen <= 3 { return "..." }
      return "..." + path[len(path)-maxLen+3:]
  }
  \<close>
  \<open>maxLen\<close> is a Go \<open>int\<close> and may be negative; it is an \<^typ>\<open>int\<close> here.  On the
  last line \<open>3 < maxLen < len(path)\<close>, so the index \<open>len(path)-maxLen+3\<close> lies
  between \<open>4\<close> and \<open>len(path) - 1\<close>: the slice never panics and nothing overflows.
\<close>

definition TruncatePath :: "string \<Rightarrow> int \<Rightarrow> string" where
  "TruncatePath path maxLen =
     (if int (length path) \<le> maxLen then path
      else if maxLen \<le> 3 then ''...''
      else ''...'' @ drop (nat (int (length path) - maxLen + 3)) path)"

text \<open>The path \<open>xxx\<close>, U+00E9 (bytes C3 A9), \<open>abc\<close>: eight bytes, seven characters.\<close>

definition accented_path :: string where
  "accented_path = [CHR ''x'', CHR ''x'', CHR ''x'', CHR 0xC3, CHR 0xA9, CHR ''a'', CHR ''b'', CHR ''c'']"

section \<open>The colour flag and messages.go\<close>

text \<open>
  The Go package keeps no colour flag of its own: styling goes through the colour
  library, whose process-wide switch decides, at each call of \<open>Sprint\<close>, whether
  the text is wrapped in SGR escape sequences or returned as it is.  \<open>Sprint\<close> below
  is that library call with the switch as an argument: \<open>ESC [ attrs m\<close>, the text,
  \<open>ESC [ 0 m\<close> when colour is on, the bare text when it is off.
\<close>

datatype stream = Stdout | Stderr

definition sgr :: "string \<Rightarrow> string" where
  "sgr code = [CHR 0x1B, CHR ''[''] @ code @ ''m''"

definition Sprint :: "bool \<Rightarrow> string \<Rightarrow> string \<Rightarrow> string" where
  "Sprint enabled code txt = (if enabled then sgr code @ txt @ sgr ''0'' else txt)"

definition FgRed :: string where "FgRed = ''31''"
definition FgGreen :: string where "FgGreen = ''32''"
definition FgYellow :: string where "FgYellow = ''33''"
definition FgBlue :: string where "FgBlue = ''34''"
definition Faint :: string where "Faint = ''2''"

text \<open>The glyphs, as their UTF-8 bytes: U+2139, U+2713, U+26A0, U+2717.\<close>

definition glyph_info :: string where "glyph_info = [CHR 0xE2, CHR 0x84, CHR 0xB9]"
definition glyph_check :: string where "glyph_check = [CHR 0xE2, CHR 0x9C, CHR 0x93]"
definition glyph_warn :: string where "glyph_warn = [CHR 0xE2, CHR 0x9A, CHR 0xA0]"
definition glyph_cross :: string where "glyph_cross = [CHR 0xE2, CHR 0x9C, CHR 0x97]"

text \<open>
  \<^verbatim>\<open>
  var (
      infoIcon    = color.New(color.FgBlue).Sprint("i")      // the glyphs above
      successIcon = color.New(color.FgGreen).Sprint("v")
      warnIcon    = color.New(color.FgYellow).Sprint("!")
      errorIcon   = color.New(color.FgRed).Sprint("x")
      dimStyle    = color.New(color.Faint)
  )
  \<close>
  The process state the message functions read: the library's switch
  (\<open>color_enabled\<close>) and the four package-level icon strings.  The icons are
  package-level variables with initialisers, so \<open>Sprint\<close> runs once, when the package is
  initialised; \<open>dimStyle\<close> is a style object, and its \<open>Sprint\<close> runs at each call of
  \<open>Dim\<close>.
\<close>

record world =
  color_enabled :: bool
  infoIcon :: string
  successIcon :: string
  warnIcon :: string
  errorIcon :: string

definition package_init :: "bool \<Rightarrow> world" where
  "package_init enabled =
     \<lparr> color_enabled = enabled,
       infoIcon = Sprint enabled FgBlue glyph_info,
       successIcon = Sprint enabled FgGreen glyph_check,
       warnIcon = Sprint enabled FgYellow glyph_warn,
       errorIcon = Sprint enabled FgRed glyph_cross \<rparr>"

text \<open>The runtime toggle: an assignment to the library's switch.\<close>

definition set_color :: "bool \<Rightarrow> world \<Rightarrow> world" where
  "set_color b w = w\<lparr>color_enabled := b\<rparr>"

text \<open>
  What a call does to the terminal, in program order: a write of the package's own to a
  stream, or a call into the spinner or progress-bar library (whose own drawing is not
  part of this repository).
\<close>

datatype event =
    Write stream string
  | SpinnerStart string string
  | SpinnerStop
  | BarFinish
  | BarClear


definition newline :: string where
  "newline = [CHR 0x0A]"

definition cr :: string where
  "cr = [CHR 0x0D]"

text \<open>
  \<^verbatim>\<open>
  func Info(msg string)    { fmt.Printf("%s %s\n", infoIcon, msg) }
  func Success(msg string) { fmt.Printf("%s %s\n", successIcon, msg) }
  func Warn(msg string)    { fmt.Printf("%s %s\n", warnIcon, msg) }
  func Error(msg string)   { fmt.Fprintf(os.Stderr, "%s %s\n", errorIcon, msg) }
  func Dim(msg string)     { fmt.Printf("  %s\n", dimStyle.Sprint(msg)) }
  \<close>
\<close>

definition Info :: "world \<Rightarrow> string \<Rightarrow> event list" where
  "Info w msg = [Write Stdout (infoIcon w @ '' '' @ msg @ newline)]"

definition Success :: "world \<Rightarrow> string \<Rightarrow> event list" where
  "Success w msg = [Write Stdout (successIcon w @ '' '' @ msg @ newline)]"

definition Warn :: "world \<Rightarrow> string \<Rightarrow> event list" where
  "Warn w msg = [Write Stdout (warnIcon w @ '' '' @ msg @ newline)]"

definition Error :: "world \<Rightarrow> string \<Rightarrow> event list" where
  "Error w msg = [Write Stderr (errorIcon w @ '' '' @ msg @ newline)]"

definition Dim :: "world \<Rightarrow> string \<Rightarrow> event list" where
  "Dim w msg = [Write Stdout (''  '' @ Sprint (color_enabled w) Faint msg @ newline)]"

subsection \<open>Spinner and bar handles\<close>

text \<open>
  \<^verbatim>\<open>
  func (s *SpinnerHandle) Success(msg string) {
      s.spinner.Stop()
      fmt.Printf("\r%s %s\n", color.GreenString("v"), msg)
  }
  func (s *SpinnerHandle) Error(msg string) {
      s.spinner.Stop()
      fmt.Fprintf(os.Stderr, "\r%s %s\n", color.RedString("x"), msg)
  }
  func (s *SpinnerHandle) Warn(msg string) {
      s.spinner.Stop()
      fmt.Printf("\r%s %s\n", color.YellowString("!"), msg)
  }
  func (s *SpinnerHandle) Clear() {
      s.spinner.Stop()
      fmt.Print("\r\033[K")
  }
  func (b *BarHandle) Success(msg string) { b.bar.Finish(); fmt.Printf(...) }
  func (b *BarHandle) Error(msg string)   { b.bar.Finish(); fmt.Fprintf(os.Stderr, ...) }
  func (b *BarHandle) Clear()             { b.bar.Clear() }
  \<close>
  \<open>color.GreenString\<close> and its siblings call \<open>Sprint\<close> when the line is written.
\<close>

definition Spinner :: "string \<Rightarrow> event list" where
  "Spinner msg = [SpinnerStart [] ('' '' @ msg)]"

definition SpinnerHandle_Success :: "world \<Rightarrow> string \<Rightarrow> event list" where
  "SpinnerHandle_Success w msg =
     [SpinnerStop,
      Write Stdout (cr @ Sprint (color_enabled w) FgGreen glyph_check @ '' '' @ msg @ newline)]"







section \<open>ColorState initialisation\<close>

text \<open>
  Modelled from the spec: the function \<open>init()\<close> that derives the colour flag from
  the environment is not among the sources (the Go package has no such function; it
  leaves the flag to its colour library).  The definition follows section 4.1 of the
  specification word for word.  The environment is a map from variable names to
  values, \<open>is_tty\<close> says whether the output stream is a terminal, and \<open>truthy\<close> is the
  reading of "a truthy value", which the specification leaves open.
\<close>

definition init_color :: "(string \<Rightarrow> bool) \<Rightarrow> (string \<rightharpoonup> string) \<Rightarrow> bool \<Rightarrow> bool" where
  "init_color truthy env is_tty =
     (if (case env ''NO_COLOR'' of Some v \<Rightarrow> v \<noteq> [] | None \<Rightarrow> False) then False
      else if (case env ''CLICOLOR_FORCE'' of Some v \<Rightarrow> truthy v | None \<Rightarrow> False) then True
      else (case env ''CLICOLOR'' of Some v \<Rightarrow> v \<noteq> ''0'' | None \<Rightarrow> is_tty))"

text \<open>One reading of "truthy": set, not empty and not \<open>0\<close>.\<close>

definition truthy_nonzero :: "string \<Rightarrow> bool" where
  "truthy_nonzero v = (v \<noteq> [] \<and> v \<noteq> ''0'')"

section \<open>float64 arithmetic\<close>

text \<open>
  The formatting functions go through \<open>float64\<close>: \<open>d.Seconds()\<close>, \<open>float64(bytes)\<close>,
  \<open>strconv.ParseFloat\<close>.  A finite \<open>float64\<close> is a rational \<open>m * 2^e\<close> with
  \<open>\<bar>m\<bar> < 2^53\<close> and \<open>e \<ge> -1074\<close>, and every IEEE operation returns the exact result
  rounded to the nearest such value, ties to the even significand.  The model keeps
  the value as a \<^typ>\<open>rat\<close> and writes the rounding out: \<open>rnd64 x\<close> is the float64
  nearest to \<open>x\<close> (overflow to infinity, above \<open>2^1024\<close>, is checked where it can
  happen, in \<open>ParseFloat\<close>).  The sign of zero is not kept: the code only compares with
  \<open>0\<close> and converts to integers, which do not see it.
\<close>

definition round_even :: "rat \<Rightarrow> int" where
  "round_even x =
     (let f = \<lfloor>x\<rfloor>; r = x - of_int f in
      if r < 1/2 then f else if 1/2 < r then f + 1 else if even f then f else f + 1)"

text \<open>\<open>ilog2 x\<close> is \<open>\<lfloor>log\<^sub>2 x\<rfloor>\<close> for \<open>x > 0\<close>, computed from bit lengths.\<close>

definition ilog2 :: "rat \<Rightarrow> int" where
  "ilog2 x = (if 1 \<le> x then bitlen \<lfloor>x\<rfloor> - 1 else - bitlen (\<lceil>1 / x\<rceil> - 1))"

text \<open>
  The exponent of the unit in the last place: 52 below the exponent of \<open>x\<close> for a
  normal number, \<open>-1074\<close> in the subnormal range.
\<close>

definition ulp_exp :: "rat \<Rightarrow> int" where
  "ulp_exp x = max (ilog2 \<bar>x\<bar> - 52) (- 1074)"

definition rnd64 :: "rat \<Rightarrow> rat" where
  "rnd64 x = (if x = 0 then 0 else of_int (round_even (x / 2 powi ulp_exp x)) * 2 powi ulp_exp x)"

text \<open>\<open>float64(n)\<close> for an integer, \<open>x / y\<close> on floats, and \<open>int64(x)\<close>, which discards
  the fraction (for a value within the range of \<open>int64\<close>, as all values here are).\<close>

definition f64_of_int :: "int \<Rightarrow> rat" where
  "f64_of_int n = rnd64 (of_int n)"

definition f64_of_uint64 :: "64 word \<Rightarrow> rat" where
  "f64_of_uint64 b = f64_of_int (uint b)"


definition int64_of_f64 :: "rat \<Rightarrow> int" where
  "int64_of_f64 x = (if 0 \<le> x then \<lfloor>x\<rfloor> else \<lceil>x\<rceil>)"

section \<open>Integer arithmetic and the fmt verbs\<close>

text \<open>Go's \<open>/\<close> and \<open>%\<close> on integers truncate towards zero; the remainder has the sign
  of the dividend.\<close>

definition tdiv :: "int \<Rightarrow> int \<Rightarrow> int" where
  "tdiv a b = sgn a * sgn b * (\<bar>a\<bar> div \<bar>b\<bar>)"

definition tmod :: "int \<Rightarrow> int \<Rightarrow> int" where
  "tmod a b = a - b * tdiv a b"

definition is_digit :: "char \<Rightarrow> bool" where
  "is_digit c = (48 \<le> (of_char c :: nat) \<and> (of_char c :: nat) \<le> 57)"

text \<open>\<open>digit_char\<close> is only applied to numbers below ten.\<close>

definition digit_char :: "nat \<Rightarrow> char" where
  "digit_char n = ''0123456789'' ! n"

text \<open>The verb \<open>%d\<close>: decimal digits, no leading zero, a minus sign for a negative.\<close>

fun show_nat :: "nat \<Rightarrow> string" where
  "show_nat n = (if n < 10 then [digit_char n] else show_nat (n div 10) @ [digit_char (n mod 10)])"

declare show_nat.simps [simp del]

definition show_int :: "int \<Rightarrow> string" where
  "show_int i = (if i < 0 then CHR ''-'' # show_nat (nat (- i)) else show_nat (nat i))"



section \<open>format.go: HumanSize\<close>

text \<open>
  \<^verbatim>\<open>
  const (
      KB uint64 = 1024
      MB uint64 = KB * 1024
      GB uint64 = MB * 1024
      TB uint64 = GB * 1024
  )
  func HumanSize(bytes uint64) string {
      switch {
      case bytes >= TB: return fmt.Sprintf("%.2f TB", float64(bytes)/float64(TB))
      case bytes >= GB: return fmt.Sprintf("%.1f GB", float64(bytes)/float64(GB))
      case bytes >= MB: return fmt.Sprintf("%.1f MB", float64(bytes)/float64(MB))
      case bytes >= KB: return fmt.Sprintf("%.1f KB", float64(bytes)/float64(KB))
      default:          return fmt.Sprintf("%d B", bytes)
      }
  }
  \<close>
\<close>

definition KB :: "64 word" where "KB = 1024"
definition MB :: "64 word" where "MB = KB * 1024"
definition GB :: "64 word" where "GB = MB * 1024"
definition TB :: "64 word" where "TB = GB * 1024"


section \<open>format.go: HumanDuration\<close>

text \<open>
  A \<open>time.Duration\<close> is an \<open>int64\<close> count of nanoseconds; it is an \<^typ>\<open>int\<close> here, and
  no operation below leaves the range of its operands.  From the \<open>time\<close> package:
  \<^verbatim>\<open>
  func (d Duration) Seconds() float64 {
      sec := d / Second
      nsec := d % Second
      return float64(sec) + float64(nsec)/1e9
  }
  func (d Duration) Milliseconds() int64 { return int64(d) / 1e6 }
  \<close>
  and the function itself:
  \<^verbatim>\<open>
  func HumanDuration(d time.Duration) string {
      secs := int64(d.Seconds())
      millis := d.Milliseconds() % 1000
      switch {
      case secs == 0:
          return fmt.Sprintf("%dms", d.Milliseconds())
      case secs < 60:
          return fmt.Sprintf("%d.%ds", secs, millis/100)
      case secs < 3600:
          mins := secs / 60
          remainingSecs := secs % 60
          return fmt.Sprintf("%dm %ds", mins, remainingSecs)
      default:
          hours := secs / 3600
          remainingMins := (secs % 3600) / 60
          return fmt.Sprintf("%dh %dm", hours, remainingMins)
      }
  }
  \<close>
\<close>

definition Second :: int where
  "Second = 1000000000"

definition Seconds :: "int \<Rightarrow> rat" where
  "Seconds d =
     (let sec = tdiv d Second; nsec = tmod d Second
      in rnd64 (f64_of_int sec + rnd64 (f64_of_int nsec / 1000000000)))"

definition Milliseconds :: "int \<Rightarrow> int" where
  "Milliseconds d = tdiv d 1000000"

text \<open>The whole-second count \<open>secs\<close> of the function.\<close>

definition whole_seconds :: "int \<Rightarrow> int" where
  "whole_seconds d = int64_of_f64 (Seconds d)"

definition HumanDuration :: "int \<Rightarrow> string" where
  "HumanDuration d =
     (let secs = whole_seconds d;
          millis = tmod (Milliseconds d) 1000
      in if secs = 0 then show_int (Milliseconds d) @ ''ms''
         else if secs < 60 then show_int secs @ ''.'' @ show_int (tdiv millis 100) @ ''s''
         else if secs < 3600 then
           (let mins = tdiv secs 60; remainingSecs = tmod secs 60
            in show_int mins @ ''m '' @ show_int remainingSecs @ ''s'')
         else
           (let hours = tdiv secs 3600; remainingMins = tdiv (tmod secs 3600) 60
            in show_int hours @ ''h '' @ show_int remainingMins @ ''m''))"

section \<open>format.go: ParseSize\<close>

subsection \<open>The strings package\<close>


definition to_upper :: "char \<Rightarrow> char" where
  "to_upper c = (if 97 \<le> byte_of c \<and> byte_of c \<le> 122 then char_of (byte_of c - 32) else c)"

definition ToUpper :: "string \<Rightarrow> string" where
  "ToUpper s = map to_upper s"

definition is_space :: "char \<Rightarrow> bool" where
  "is_space c = (byte_of c = 32 \<or> (9 \<le> byte_of c \<and> byte_of c \<le> 13))"

definition TrimSpace :: "string \<Rightarrow> string" where
  "TrimSpace s = rev (dropWhile is_space (rev (dropWhile is_space s)))"

definition HasSuffix :: "string \<Rightarrow> string \<Rightarrow> bool" where
  "HasSuffix s suffix = (length suffix \<le> length s \<and> drop (length s - length suffix) s = suffix)"

definition TrimSuffix :: "string \<Rightarrow> string \<Rightarrow> string" where
  "TrimSuffix s suffix = (if HasSuffix s suffix then take (length s - length suffix) s else s)"

subsection \<open>strconv.ParseFloat\<close>

text \<open>
  \<open>strconv.ParseFloat(s, 64)\<close> is the standard library's; the model follows its
  documented behaviour and the structure of its scanner.  It accepts \<open>nan\<close>, and
  \<open>inf\<close> or \<open>infinity\<close> with an optional sign, in any case (\<open>special\<close>); otherwise an
  optional sign, a decimal mantissa with an optional point and an optional exponent
  \<open>e\<close>, or a hexadecimal mantissa after \<open>0x\<close> with a mandatory binary exponent \<open>p\<close>
  (\<open>readFloat\<close>); underscores may separate digits (\<open>underscoreOK\<close>).  The whole string
  must be consumed.  The result is the float64 nearest to the exact value written,
  ties to even; a value that rounds to \<open>2^1024\<close> or more is a range error, which
  \<open>ParseSize\<close> treats like any other error; a value that rounds to zero is zero.
\<close>

datatype f64 = Finite rat | PosInf | NegInf | NaN

datatype num_error = ErrSyntax | ErrRange

text \<open>\<open>special\<close>: the length of the common prefix with \<open>infinity\<close> or \<open>nan\<close>, ignoring
  case; three or eight letters of \<open>infinity\<close> make an infinity, and the count of
  characters consumed is returned with the value.\<close>

definition ascii_lower :: "char \<Rightarrow> char" where
  "ascii_lower c = (if 65 \<le> byte_of c \<and> byte_of c \<le> 90 then char_of (byte_of c + 32) else c)"

fun commonPrefixLenIgnoreCase :: "string \<Rightarrow> string \<Rightarrow> nat" where
  "commonPrefixLenIgnoreCase (c # s) (p # prefix) =
     (if ascii_lower c = p then Suc (commonPrefixLenIgnoreCase s prefix) else 0)"
| "commonPrefixLenIgnoreCase _ _ = 0"

definition inf_prefix :: "bool \<Rightarrow> nat \<Rightarrow> string \<Rightarrow> (f64 \<times> nat) option" where
  "inf_prefix neg nsign s =
     (let n0 = commonPrefixLenIgnoreCase s ''infinity'';
          n = (if 3 < n0 \<and> n0 < 8 then 3 else n0)
      in if n = 3 \<or> n = 8 then Some (if neg then NegInf else PosInf, nsign + n) else None)"

definition special :: "string \<Rightarrow> (f64 \<times> nat) option" where
  "special s =
     (case s of
        [] \<Rightarrow> None
      | c # t \<Rightarrow>
          if c = CHR ''+'' \<or> c = CHR ''-'' then inf_prefix (c = CHR ''-'') 1 t
          else if c = CHR ''i'' \<or> c = CHR ''I'' then inf_prefix False 0 s
          else if c = CHR ''n'' \<or> c = CHR ''N'' then
            (if commonPrefixLenIgnoreCase s ''nan'' = 3 then Some (NaN, 3) else None)
          else None)"

text \<open>Digits and their values; the exponent stops growing once it has reached 10000.\<close>

definition is_hex_letter :: "char \<Rightarrow> bool" where
  "is_hex_letter c = ((65 \<le> byte_of c \<and> byte_of c \<le> 70) \<or> (97 \<le> byte_of c \<and> byte_of c \<le> 102))"

definition digit_value :: "char \<Rightarrow> int" where
  "digit_value c =
     (if is_digit c then int (byte_of c) - 48
      else if 97 \<le> byte_of c then int (byte_of c) - 87 else int (byte_of c) - 55)"

definition digits_value :: "int \<Rightarrow> string \<Rightarrow> int" where
  "digits_value base ds = foldl (\<lambda>acc c. acc * base + digit_value c) 0 ds"

definition exponent_value :: "string \<Rightarrow> int" where
  "exponent_value ds = foldl (\<lambda>e c. if e < 10000 then e * 10 + digit_value c else e) 0 ds"

text \<open>\<open>underscoreOK\<close>: an underscore must stand between digits (a base prefix counts as
  a digit).\<close>

datatype saw = SawStart | SawDigit | SawUnderscore | SawOther

fun underscore_scan :: "bool \<Rightarrow> saw \<Rightarrow> string \<Rightarrow> bool" where
  "underscore_scan hex sw [] = (sw \<noteq> SawUnderscore)"
| "underscore_scan hex sw (c # cs) =
     (if is_digit c \<or> (hex \<and> is_hex_letter c) then underscore_scan hex SawDigit cs
      else if c = CHR ''_'' then sw = SawDigit \<and> underscore_scan hex SawUnderscore cs
      else if sw = SawUnderscore then False
      else underscore_scan hex SawOther cs)"

definition strip_sign :: "string \<Rightarrow> string" where
  "strip_sign s = (case s of [] \<Rightarrow> [] | c # t \<Rightarrow> if c = CHR ''+'' \<or> c = CHR ''-'' then t else s)"

definition underscoreOK :: "string \<Rightarrow> bool" where
  "underscoreOK s =
     (case strip_sign s of
        c0 # c1 # t \<Rightarrow>
          if c0 = CHR ''0'' \<and> c1 \<in> set ''bBoOxX''
          then underscore_scan (c1 = CHR ''x'' \<or> c1 = CHR ''X'') SawDigit t
          else underscore_scan False SawStart (c0 # c1 # t)
      | s1 \<Rightarrow> underscore_scan False SawStart s1)"

text \<open>\<open>readFloat\<close>: the sign, the base prefix, the mantissa (digits and underscores, at
  most one point), the exponent.  It returns the sign, the exact value of the numeral
  and the number of characters consumed, or \<open>None\<close> for a syntax error.\<close>

definition mantissa_char :: "bool \<Rightarrow> char \<Rightarrow> bool" where
  "mantissa_char hex c = (c = CHR ''_'' \<or> is_digit c \<or> (hex \<and> is_hex_letter c))"

definition exponent_char :: "char \<Rightarrow> bool" where
  "exponent_char c = (c = CHR ''_'' \<or> is_digit c)"

definition no_underscores :: "string \<Rightarrow> string" where
  "no_underscores s = filter (\<lambda>c. c \<noteq> CHR ''_'') s"

text \<open>The optional exponent: its value, what follows it and whether it had an
  underscore, or \<open>None\<close> for a syntax error.\<close>

definition read_exponent :: "bool \<Rightarrow> string \<Rightarrow> (int \<times> string \<times> bool) option" where
  "read_exponent hex r =
     (case r of
        [] \<Rightarrow> if hex then None else Some (0, [], False)
      | c # t \<Rightarrow>
          if (if hex then c = CHR ''p'' \<or> c = CHR ''P'' else c = CHR ''e'' \<or> c = CHR ''E'') then
            (case t of
               [] \<Rightarrow> None
             | c1 # t1 \<Rightarrow>
                 let esign = (if c1 = CHR ''-'' then - 1 else 1);
                     t2 = (if c1 = CHR ''+'' \<or> c1 = CHR ''-'' then t1 else t)
                 in (case t2 of
                       [] \<Rightarrow> None
                     | c2 # _ \<Rightarrow>
                         if is_digit c2 then
                           Some (esign * exponent_value (no_underscores (takeWhile exponent_char t2)),
                                 dropWhile exponent_char t2,
                                 CHR ''_'' \<in> set (takeWhile exponent_char t2))
                         else None))
          else if hex then None else Some (0, r, False))"

definition hex_prefix :: "string \<Rightarrow> bool" where
  "hex_prefix s =
     (case s of
        c0 # c1 # _ # _ \<Rightarrow> c0 = CHR ''0'' \<and> (c1 = CHR ''x'' \<or> c1 = CHR ''X'')
      | _ \<Rightarrow> False)"

definition scan_mantissa :: "bool \<Rightarrow> string \<Rightarrow> string \<times> string \<times> string" where
  "scan_mantissa hex s =
     (let ipart = takeWhile (mantissa_char hex) s;
          r1 = dropWhile (mantissa_char hex) s
      in case r1 of
           [] \<Rightarrow> (ipart, [], [])
         | c # t \<Rightarrow>
             if c = CHR ''.''
             then (ipart, takeWhile (mantissa_char hex) t, dropWhile (mantissa_char hex) t)
             else (ipart, [], r1))"

definition readFloat :: "string \<Rightarrow> (bool \<times> rat \<times> nat) option" where
  "readFloat s =
     (let neg = (case s of c # _ \<Rightarrow> c = CHR ''-'' | [] \<Rightarrow> False);
          s1 = strip_sign s;
          hex = hex_prefix s1;
          (ipart, fpart, r2) = scan_mantissa hex (if hex then drop 2 s1 else s1);
          idigits = no_underscores ipart;
          fdigits = no_underscores fpart
      in if idigits = [] \<and> fdigits = [] then None
         else
           (case read_exponent hex r2 of
              None \<Rightarrow> None
            | Some (e, r3, us) \<Rightarrow>
                let n = length s - length r3;
                    underscores = (us \<or> CHR ''_'' \<in> set ipart \<or> CHR ''_'' \<in> set fpart);
                    mant = of_int (digits_value (if hex then 16 else 10) (idigits @ fdigits));
                    v = (if hex then mant * 2 powi (e - 4 * int (length fdigits))
                         else mant * 10 powi (e - int (length fdigits)))
                in if underscores \<and> \<not> underscoreOK (take n s) then None
                   else Some (neg, v, n)))"

definition ParseFloat :: "string \<Rightarrow> num_error + f64" where
  "ParseFloat s =
     (case special s of
        Some (v, n) \<Rightarrow> if n = length s then Inr v else Inl ErrSyntax
      | None \<Rightarrow>
          (case readFloat s of
             None \<Rightarrow> Inl ErrSyntax
           | Some (neg, v, n) \<Rightarrow>
               if n \<noteq> length s then Inl ErrSyntax
               else if 2 ^ 1024 \<le> rnd64 v then Inl ErrRange
               else Inr (Finite (if neg then - rnd64 v else rnd64 v))))"

subsection \<open>ParseSize\<close>

text \<open>
  \<^verbatim>\<open>
  func ParseSize(s string) (uint64, error) {
      s = strings.TrimSpace(strings.ToUpper(s))
      if s == "" {
          return 0, fmt.Errorf("empty size string")
      }
      var numStr string
      var multiplier uint64 = 1
      switch {
      case strings.HasSuffix(s, "TB"):
          numStr = strings.TrimSuffix(s, "TB")
          multiplier = TB
      case strings.HasSuffix(s, "GB"):
          numStr = strings.TrimSuffix(s, "GB")
          multiplier = GB
      case strings.HasSuffix(s, "MB"):
          numStr = strings.TrimSuffix(s, "MB")
          multiplier = MB
      case strings.HasSuffix(s, "KB"):
          numStr = strings.TrimSuffix(s, "KB")
          multiplier = KB
      case strings.HasSuffix(s, "B"):
          numStr = strings.TrimSuffix(s, "B")
      default:
          numStr = s
      }
      numStr = strings.TrimSpace(numStr)
      num, err := strconv.ParseFloat(numStr, 64)
      if err != nil {
          return 0, fmt.Errorf("invalid number in size: '%s'", numStr)
      }
      if num < 0 {
          return 0, fmt.Errorf("size cannot be negative: %f", num)
      }
      return uint64(num * float64(multiplier)), nil
  }
  \<close>
  The three errors are the three \<open>fmt.Errorf\<close> returns.  The conversion \<open>uint64(x)\<close>
  discards the fraction of \<open>x\<close>; for a NaN, an infinity or a value outside the range of
  \<open>uint64\<close> Go returns an implementation-dependent value and no error, which the model
  keeps apart as \<open>ImplementationDependent\<close>.  \<open>split_unit\<close> is the \<open>switch\<close>.
\<close>

datatype size_error = EmptySize | InvalidNumber string | NegativeSize

datatype uint64_result = Exact "64 word" | ImplementationDependent

definition f64_negative :: "f64 \<Rightarrow> bool" where
  "f64_negative x = (case x of Finite q \<Rightarrow> q < 0 | NegInf \<Rightarrow> True | _ \<Rightarrow> False)"

definition f64_mul :: "f64 \<Rightarrow> rat \<Rightarrow> f64" where
  "f64_mul x m =
     (case x of
        Finite q \<Rightarrow>
          (let r = rnd64 (q * m)
           in if 2 ^ 1024 \<le> r then PosInf else if r \<le> - (2 ^ 1024) then NegInf else Finite r)
      | PosInf \<Rightarrow> if 0 < m then PosInf else if m < 0 then NegInf else NaN
      | NegInf \<Rightarrow> if 0 < m then NegInf else if m < 0 then PosInf else NaN
      | NaN \<Rightarrow> NaN)"

definition uint64_of_f64 :: "f64 \<Rightarrow> uint64_result" where
  "uint64_of_f64 x =
     (case x of
        Finite q \<Rightarrow>
          if 0 \<le> int64_of_f64 q \<and> int64_of_f64 q < 2 ^ 64 then Exact (word_of_int (int64_of_f64 q))
          else ImplementationDependent
      | _ \<Rightarrow> ImplementationDependent)"

definition split_unit :: "string \<Rightarrow> string \<times> 64 word" where
  "split_unit s =
     (if HasSuffix s ''TB'' then (TrimSuffix s ''TB'', TB)
      else if HasSuffix s ''GB'' then (TrimSuffix s ''GB'', GB)
      else if HasSuffix s ''MB'' then (TrimSuffix s ''MB'', MB)
      else if HasSuffix s ''KB'' then (TrimSuffix s ''KB'', KB)
      else if HasSuffix s ''B'' then (TrimSuffix s ''B'', 1)
      else (s, 1))"

definition ParseSize :: "string \<Rightarrow> size_error + uint64_result" where
  "ParseSize s0 =
     (let s = TrimSpace (ToUpper s0)
      in if s = [] then Inl EmptySize
         else
           (let (numStr0, multiplier) = split_unit s;
                numStr = TrimSpace numStr0
            in case ParseFloat numStr of
                 Inl err \<Rightarrow> Inl (InvalidNumber numStr)
               | Inr num \<Rightarrow>
                   if f64_negative num then Inl NegativeSize
                   else Inr (uint64_of_f64 (f64_mul num (f64_of_uint64 multiplier)))))"

subsection \<open>The size grammar\<close>

text \<open>The decimal numerals of the size grammar: an integer part and an optional
  fraction, with their exact value.\<close>

definition decimal_numeral :: "string \<Rightarrow> string \<Rightarrow> string" where
  "decimal_numeral ip fp = ip @ (if fp = [] then [] else CHR ''.'' # fp)"

definition decimal_value :: "string \<Rightarrow> string \<Rightarrow> rat" where
  "decimal_value ip fp = of_int (digits_value 10 (ip @ fp)) / 10 ^ length fp"

text \<open>The multiplier of an upper-case unit suffix; the empty suffix means bytes.\<close>

definition unit_multiplier :: "string \<Rightarrow> 64 word option" where
  "unit_multiplier u =
     (if u = [] \<or> u = ''B'' then Some 1
      else if u = ''KB'' then Some KB
      else if u = ''MB'' then Some MB
      else if u = ''GB'' then Some GB
      else if u = ''TB'' then Some TB
      else None)"



section \<open>Properties of TruncatePath\<close>

text \<open>
  C2, as the code has it.  Lengths are byte lengths: a path of at most \<open>maxLen\<close> bytes
  is returned unchanged; a longer one becomes \<open>...\<close> when \<open>maxLen \<le> 3\<close>, and otherwise
  \<open>...\<close> followed by the last \<open>maxLen - 3\<close> bytes of the path, \<open>maxLen\<close> bytes in all;
  and \<open>TruncatePath p (len p) = p\<close>.
\<close>

theorem TruncatePath_bytes:
  "(int (length p) \<le> m \<longrightarrow> TruncatePath p m = p) \<and>
   (m < int (length p) \<and> m \<le> 3 \<longrightarrow> TruncatePath p m = ''...'') \<and>
   (m < int (length p) \<and> 3 < m \<longrightarrow>
      (\<exists>front back. p = front @ back \<and> int (length back) = m - 3 \<and>
         TruncatePath p m = ''...'' @ back) \<and>
      int (length (TruncatePath p m)) = m) \<and>
   TruncatePath p (int (length p)) = p"
proof (intro conjI impI)
  assume h: "m < int (length p) \<and> 3 < m"
  define i where "i = nat (int (length p) - m + 3)"
  have i: "i \<le> length p" "int (length p - i) = m - 3"
    using h by (auto simp: i_def)
  have "p = take i p @ drop i p" by simp
  moreover have "int (length (drop i p)) = m - 3" using i by simp
  moreover have "TruncatePath p m = ''...'' @ drop i p"
    using h by (simp add: TruncatePath_def i_def)
  ultimately show "\<exists>front back. p = front @ back \<and> int (length back) = m - 3 \<and>
      TruncatePath p m = ''...'' @ back"
    by blast
  show "int (length (TruncatePath p m)) = m"
    using h by (auto simp: TruncatePath_def)
qed (simp_all add: TruncatePath_def)

theorem TruncatePath_bytes_witness:
  "TruncatePath ''short.txt'' 20 = ''short.txt'' \<and>
   TruncatePath ''test'' 3 = ''...'' \<and>
   int (length (TruncatePath ''/very/long/path/to/file.txt'' 15)) = 15"
  using TruncatePath_bytes [of "''short.txt''" 20]
    TruncatePath_bytes [of "''test''" 3]
    TruncatePath_bytes [of "''/very/long/path/to/file.txt''" 15]
  by simp

text \<open>
  C2 as stated fails: the cut is a byte offset.  Truncating the eight-byte path above
  to 7 keeps its last four bytes, and the first of them is the second byte of the
  two-byte encoding of U+00E9: the input is well-framed UTF-8, the output is not.
\<close>

theorem TruncatePath_cuts_encoding:
  "utf8_framed accented_path \<and>
   TruncatePath accented_path 7 = ''...'' @ [CHR 0xA9, CHR ''a'', CHR ''b'', CHR ''c''] \<and>
   \<not> utf8_framed (TruncatePath accented_path 7)"
  by (simp add: TruncatePath_def accented_path_def utf8_framed_def seq_len_def is_cont_def byte_of_def)

section \<open>Properties of the colour flag and the messages\<close>

text \<open>
  C6 (against the definition modelled from the specification).  In this order: a
  non-empty \<open>NO_COLOR\<close> disables colour whatever the other variables and the terminal
  say; otherwise a truthy \<open>CLICOLOR_FORCE\<close> enables it, terminal or not; otherwise a
  set \<open>CLICOLOR\<close> disables it when it is \<open>0\<close> and enables it for any other value;
  otherwise colour is enabled exactly when the output stream is a terminal.
\<close>

theorem init_color_precedence:
  fixes truthy :: "string \<Rightarrow> bool" and env :: "string \<rightharpoonup> string"
  defines "no_color \<equiv> (\<exists>v. env ''NO_COLOR'' = Some v \<and> v \<noteq> [])"
  defines "force \<equiv> (\<exists>v. env ''CLICOLOR_FORCE'' = Some v \<and> truthy v)"
  shows "(no_color \<longrightarrow> init_color truthy env is_tty = False) \<and>
         (\<not> no_color \<and> force \<longrightarrow> init_color truthy env is_tty = True) \<and>
         (\<not> no_color \<and> \<not> force \<and> env ''CLICOLOR'' = Some ''0'' \<longrightarrow>
            init_color truthy env is_tty = False) \<and>
         (\<not> no_color \<and> \<not> force \<and> (\<exists>v. env ''CLICOLOR'' = Some v \<and> v \<noteq> ''0'') \<longrightarrow>
            init_color truthy env is_tty = True) \<and>
         (\<not> no_color \<and> \<not> force \<and> env ''CLICOLOR'' = None \<longrightarrow>
            init_color truthy env is_tty = is_tty)"
  unfolding no_color_def force_def init_color_def
  by (auto split: option.splits)

theorem init_color_precedence_witness:
  "init_color truthy_nonzero [''NO_COLOR'' \<mapsto> ''1'', ''CLICOLOR_FORCE'' \<mapsto> ''1''] True = False \<and>
   init_color truthy_nonzero [''CLICOLOR_FORCE'' \<mapsto> ''1'', ''CLICOLOR'' \<mapsto> ''0''] False = True \<and>
   init_color truthy_nonzero [''CLICOLOR'' \<mapsto> ''0''] True = False \<and>
   init_color truthy_nonzero [''CLICOLOR'' \<mapsto> ''1''] False = True \<and>
   init_color truthy_nonzero Map.empty True = True \<and>
   init_color truthy_nonzero Map.empty False = False"
  using
    init_color_precedence [of "[''NO_COLOR'' \<mapsto> ''1'', ''CLICOLOR_FORCE'' \<mapsto> ''1'']" truthy_nonzero True]
    init_color_precedence [of "[''CLICOLOR_FORCE'' \<mapsto> ''1'', ''CLICOLOR'' \<mapsto> ''0'']" truthy_nonzero False]
    init_color_precedence [of "[''CLICOLOR'' \<mapsto> ''0'']" truthy_nonzero True]
    init_color_precedence [of "[''CLICOLOR'' \<mapsto> ''1'']" truthy_nonzero False]
    init_color_precedence [of Map.empty truthy_nonzero True]
    init_color_precedence [of Map.empty truthy_nonzero False]
  by (simp add: truthy_nonzero_def)

text \<open>
  C7 on the code.  The four message functions print the icon strings computed when
  the package was initialised, so a later change of the flag does not reach them:
  their output after \<open>set_color b\<close> is the output before it.  \<open>Dim\<close> and the finishing
  lines of the spinner and the bar call \<open>Sprint\<close> when they write, and do follow the
  flag.
\<close>

theorem message_icons_ignore_set_color:
  "Info (set_color b w) msg = Info w msg \<and>
   Success (set_color b w) msg = Success w msg \<and>
   Warn (set_color b w) msg = Warn w msg \<and>
   Error (set_color b w) msg = Error w msg \<and>
   Dim (set_color b w) msg = [Write Stdout (''  '' @ Sprint b Faint msg @ newline)] \<and>
   SpinnerHandle_Success (set_color b w) msg =
     [SpinnerStop, Write Stdout (cr @ Sprint b FgGreen glyph_check @ '' '' @ msg @ newline)]"
  by (simp add: Info_def Success_def Warn_def Error_def Dim_def SpinnerHandle_Success_def
      set_color_def)

text \<open>
  C7, the failing run: colour is on when the package is initialised and is then
  switched off.  \<open>Info\<close> still writes the escape sequences, which a package initialised
  with colour off does not; \<open>Dim\<close> in the same state writes none.
\<close>

theorem Info_after_set_color_False:
  "Info (set_color False (package_init True)) ''x'' =
     [Write Stdout ([CHR 0x1B] @ ''[34m'' @ glyph_info @ [CHR 0x1B] @ ''[0m x'' @ newline)] \<and>
   Info (package_init False) ''x'' = [Write Stdout (glyph_info @ '' x'' @ newline)] \<and>
   Info (set_color False (package_init True)) ''x'' \<noteq> Info (package_init False) ''x'' \<and>
   Dim (set_color False (package_init True)) ''x'' = Dim (package_init False) ''x''"
  by (simp add: Info_def Dim_def set_color_def package_init_def Sprint_def sgr_def FgBlue_def
      glyph_info_def)


section \<open>Properties of float64 rounding\<close>

lemma round_even_of_int [simp]: "round_even (of_int n) = n"
  by (simp add: round_even_def)

lemma round_even_bounds: "\<lfloor>x\<rfloor> \<le> round_even x" "round_even x \<le> \<lfloor>x\<rfloor> + 1"
  by (simp_all add: round_even_def Let_def)

lemma round_even_same_floor:
  assumes "x \<le> y" "\<lfloor>x\<rfloor> = \<lfloor>y\<rfloor>"
  shows "round_even x \<le> round_even y"
  using assms by (auto simp: round_even_def Let_def)

lemma round_even_mono:
  assumes "x \<le> y"
  shows "round_even x \<le> round_even y"
proof (cases "\<lfloor>x\<rfloor> = \<lfloor>y\<rfloor>")
  case True
  then show ?thesis using assms by (rule round_even_same_floor[rotated])
next
  case False
  have "\<lfloor>x\<rfloor> \<le> \<lfloor>y\<rfloor>" using assms by (rule floor_mono)
  with False have "\<lfloor>x\<rfloor> + 1 \<le> \<lfloor>y\<rfloor>" by simp
  then show ?thesis
    using round_even_bounds(2)[of x] round_even_bounds(1)[of y] by linarith
qed

lemma pow2_pos [simp]: "0 < (2::rat) powi e"
  by (simp add: zero_less_power_int)

lemma pow2_le_iff: "(2::rat) powi a \<le> 2 powi b \<longleftrightarrow> a \<le> b"
proof
  assume h: "(2::rat) powi a \<le> 2 powi b"
  show "a \<le> b"
  proof (rule ccontr)
    assume "\<not> a \<le> b"
    then have "(2::rat) powi b < 2 powi a"
      by (intro power_int_strict_increasing) simp_all
    with h show False by simp
  qed
next
  assume "a \<le> b"
  then show "(2::rat) powi a \<le> 2 powi b"
    by (intro power_int_increasing) simp_all
qed

lemma pow2_less_iff: "(2::rat) powi a < 2 powi b \<longleftrightarrow> a < b"
  using pow2_le_iff [of b a] by (simp add: not_le [symmetric])

lemma pow2_add: "(2::rat) powi (a + b) = 2 powi a * 2 powi b"
  by (simp add: power_int_add)

lemma pow2_diff: "(2::rat) powi (a - b) = 2 powi a / 2 powi b"
  by (simp add: power_int_diff)

lemma of_int_pow2_nat: "(of_int (2 ^ n) :: rat) = 2 powi int n"
  by simp

lemma ilog2_lower:
  assumes "0 < x"
  shows "2 powi ilog2 x \<le> x"
proof (cases "1 \<le> x")
  case True
  define n where "n = \<lfloor>x\<rfloor>"
  have n: "0 < n" using True by (simp add: n_def)
  then have b: "1 \<le> bitlen n" using bitlen_eq_zero_iff[of n] bitlen_nonneg[of n] by linarith
  have "2 ^ nat (bitlen n - 1) \<le> n" using bitlen_bounds[OF n] by simp
  then have "(of_int (2 ^ nat (bitlen n - 1)) :: rat) \<le> of_int n"
    by (simp only: of_int_le_iff)
  also have "\<dots> \<le> x" by (simp add: n_def)
  finally have "(2::rat) ^ nat (bitlen n - 1) \<le> x" by simp
  moreover have "(2::rat) powi (bitlen n - 1) = 2 ^ nat (bitlen n - 1)"
    using b by (intro power_int_nonneg_exp) simp
  moreover have "ilog2 x = bitlen n - 1"
    using True by (simp add: ilog2_def n_def)
  ultimately show ?thesis by simp
next
  case False
  define y where "y = 1 / x"
  define n where "n = \<lceil>y\<rceil>"
  define b where "b = bitlen (n - 1)"
  have y: "1 < y" using False assms by (simp add: y_def)
  then have n: "0 < n - 1" unfolding n_def by linarith
  have "n - 1 < 2 ^ nat b" using bitlen_bounds[OF n] by (simp add: b_def)
  then have "n \<le> 2 ^ nat b" by simp
  then have "(of_int n :: rat) \<le> of_int (2 ^ nat b)" by (simp only: of_int_le_iff)
  then have "(of_int n :: rat) \<le> 2 ^ nat b" by simp
  moreover have "y \<le> of_int n" by (simp add: n_def)
  moreover have "(2::rat) powi b = 2 ^ nat b"
    using bitlen_nonneg[of "n - 1"] unfolding b_def by (intro power_int_nonneg_exp)
  ultimately have "y \<le> 2 powi b" by linarith
  then have "1 / 2 powi b \<le> x" using assms
    by (simp add: y_def field_simps)
  moreover have "ilog2 x = - b" using False by (simp add: ilog2_def b_def n_def y_def)
  ultimately show ?thesis by (simp add: power_int_minus_divide)
qed

lemma ilog2_upper:
  assumes "0 < x"
  shows "x < 2 powi (ilog2 x + 1)"
proof (cases "1 \<le> x")
  case True
  define n where "n = \<lfloor>x\<rfloor>"
  have n: "0 < n" using True by (simp add: n_def)
  have "n + 1 \<le> 2 ^ nat (bitlen n)" using bitlen_bounds[OF n] by simp
  then have "(of_int (n + 1) :: rat) \<le> of_int (2 ^ nat (bitlen n))"
    by (simp only: of_int_le_iff)
  moreover have "x < of_int (n + 1)" unfolding n_def by linarith
  ultimately have "x < 2 ^ nat (bitlen n)" by simp
  moreover have "(2::rat) powi (bitlen n) = 2 ^ nat (bitlen n)"
    using bitlen_nonneg[of n] by (intro power_int_nonneg_exp)
  moreover have "ilog2 x + 1 = bitlen n"
    using True by (simp add: ilog2_def n_def)
  ultimately show ?thesis by simp
next
  case False
  define y where "y = 1 / x"
  define n where "n = \<lceil>y\<rceil>"
  define b where "b = bitlen (n - 1)"
  have y: "1 < y" using False assms by (simp add: y_def)
  then have n: "0 < n - 1" unfolding n_def by linarith
  then have b: "1 \<le> b" using bitlen_eq_zero_iff[of "n - 1"] bitlen_nonneg[of "n - 1"]
    unfolding b_def by linarith
  have "2 ^ nat (b - 1) \<le> n - 1" using bitlen_bounds[OF n] by (simp add: b_def)
  then have "(of_int (2 ^ nat (b - 1)) :: rat) \<le> of_int (n - 1)" by (simp only: of_int_le_iff)
  moreover have "of_int (n - 1) < y" unfolding n_def by linarith
  moreover have "(2::rat) powi (b - 1) = 2 ^ nat (b - 1)"
    using b by (intro power_int_nonneg_exp) simp
  ultimately have "2 powi (b - 1) < y" by simp
  then have "x < 1 / 2 powi (b - 1)" using assms
    by (simp add: y_def field_simps)
  moreover have "ilog2 x + 1 = - (b - 1)" using False by (simp add: ilog2_def b_def n_def y_def)
  moreover have "(2::rat) powi (- (b - 1)) = 1 / 2 powi (b - 1)"
    by (rule power_int_minus_divide)
  ultimately show ?thesis by (simp only:)
qed

lemma ilog2_less:
  assumes "0 < x" "x < 2 powi k"
  shows "ilog2 x < k"
  using ilog2_lower[OF assms(1)] assms(2) pow2_less_iff[of "ilog2 x" k] by simp

lemma ilog2_ge:
  assumes "2 powi k \<le> x"
  shows "k \<le> ilog2 x"
proof -
  have "0 < x" using assms pow2_pos[of k] by linarith
  from ilog2_upper[OF this] assms have "(2::rat) powi k < 2 powi (ilog2 x + 1)" by simp
  then show ?thesis by (simp add: pow2_less_iff)
qed

lemma ilog2_mono:
  assumes "0 < x" "x \<le> y"
  shows "ilog2 x \<le> ilog2 y"
  using ilog2_ge[of "ilog2 x" y] ilog2_lower[OF assms(1)] assms(2) by simp


lemma ulp_exp_ge: "- 1074 \<le> ulp_exp x"
  by (simp add: ulp_exp_def)

lemma rnd64_zero [simp]: "rnd64 0 = 0"
  by (simp add: rnd64_def)

lemma rnd64_nonneg:
  assumes "0 \<le> x"
  shows "0 \<le> rnd64 x"
proof -
  have "0 \<le> x / 2 powi ulp_exp x" using assms by simp
  then have "round_even 0 \<le> round_even (x / 2 powi ulp_exp x)" by (rule round_even_mono)
  then have "0 \<le> round_even (x / 2 powi ulp_exp x)" using round_even_of_int[of 0] by simp
  then show ?thesis by (simp add: rnd64_def)
qed

lemma rnd64_nonpos:
  assumes "x \<le> 0"
  shows "rnd64 x \<le> 0"
proof -
  have "x / 2 powi ulp_exp x \<le> 0" using assms by (simp add: divide_le_0_iff)
  then have "round_even (x / 2 powi ulp_exp x) \<le> round_even 0" by (rule round_even_mono)
  then have "round_even (x / 2 powi ulp_exp x) \<le> 0" using round_even_of_int[of 0] by simp
  then show ?thesis by (simp add: rnd64_def mult_le_0_iff)
qed

text \<open>A value m * 2^k with 0 < m < 2^53 and k >= -1074 is a float64; rounding keeps it.\<close>

lemma rnd64_exact_pos:
  assumes m: "0 < m" "m < 2 ^ 53" and k: "- 1074 \<le> k"
  shows "rnd64 (of_int m * 2 powi k) = of_int m * 2 powi k"
proof -
  define y :: rat where "y = of_int m * 2 powi k"
  define e where "e = ulp_exp y"
  have ypos: "0 < y" using m by (simp add: y_def)
  have "(of_int m :: rat) < of_int (2 ^ 53)" using m(2) by (simp only: of_int_less_iff)
  then have "(of_int m :: rat) < 2 powi 53" by simp
  then have "y < 2 powi 53 * 2 powi k" by (simp add: y_def)
  then have "y < 2 powi (53 + k)" by (simp add: pow2_add)
  then have "ilog2 y < 53 + k" using ypos by (intro ilog2_less)
  then have ek: "e \<le> k" using k ypos by (simp add: e_def ulp_exp_def)
  have "y / 2 powi e = of_int m * 2 powi (k - e)" by (simp add: y_def pow2_diff)
  also have "(2::rat) powi (k - e) = 2 ^ nat (k - e)"
    using ek by (intro power_int_nonneg_exp) simp
  also have "of_int m * (2::rat) ^ nat (k - e) = of_int (m * 2 ^ nat (k - e))" by simp
  finally have "round_even (y / 2 powi e) = m * 2 ^ nat (k - e)"
    by (simp only: round_even_of_int)
  then have "rnd64 y = of_int (m * 2 ^ nat (k - e)) * 2 powi e"
    using ypos by (simp add: rnd64_def e_def)
  also have "\<dots> = of_int m * (2 ^ nat (k - e) * 2 powi e)" by simp
  also have "(2::rat) ^ nat (k - e) = 2 powi (k - e)"
    using ek by (intro power_int_nonneg_exp [symmetric]) simp
  also have "(2::rat) powi (k - e) * 2 powi e = 2 powi k" by (simp add: pow2_diff)
  finally show ?thesis by (simp add: y_def)
qed

lemma rnd64_of_int:
  assumes "0 \<le> n" "n < 2 ^ 53"
  shows "rnd64 (of_int n) = of_int n"
proof (cases "n = 0")
  case True then show ?thesis by simp
next
  case False
  with assms have "0 < n" by simp
  from rnd64_exact_pos[OF this assms(2), of 0] show ?thesis by simp
qed

lemma ulp_exp_mono:
  assumes "0 < x" "x \<le> y"
  shows "ulp_exp x \<le> ulp_exp y"
  using ilog2_mono[OF assms] assms by (simp add: ulp_exp_def)

lemma rnd64_pos_le_pow:
  assumes "0 < x"
  shows "rnd64 x \<le> 2 powi (ulp_exp x + 53)"
proof -
  define e where "e = ulp_exp x"
  have "ilog2 x + 1 \<le> e + 53" using assms by (simp add: e_def ulp_exp_def)
  then have "(2::rat) powi (ilog2 x + 1) \<le> 2 powi (e + 53)" by (simp add: pow2_le_iff)
  with ilog2_upper[OF assms] have "x \<le> 2 powi (e + 53)" by simp
  then have "x / 2 powi e \<le> 2 powi 53" by (simp add: pow2_add field_simps)
  then have "x / 2 powi e \<le> of_int (2 ^ 53)" by simp
  then have "round_even (x / 2 powi e) \<le> round_even (of_int (2 ^ 53))"
    by (rule round_even_mono)
  then have "round_even (x / 2 powi e) \<le> 2 ^ 53" by (simp only: round_even_of_int)
  then have "(of_int (round_even (x / 2 powi e)) :: rat) \<le> of_int (2 ^ 53)"
    by (simp only: of_int_le_iff)
  then have "(of_int (round_even (x / 2 powi e)) :: rat) * 2 powi e \<le> 2 powi 53 * 2 powi e"
    by simp
  then show ?thesis using assms by (simp add: rnd64_def e_def pow2_add mult.commute)
qed

lemma rnd64_normal_ge_pow:
  assumes "0 < y" "- 1074 < ulp_exp y"
  shows "2 powi (ulp_exp y + 52) \<le> rnd64 y"
proof -
  define e where "e = ulp_exp y"
  have "e = ilog2 y - 52" using assms by (simp add: e_def ulp_exp_def split: if_splits)
  then have "2 powi (e + 52) \<le> y" using ilog2_lower[OF assms(1)] by simp
  then have "2 powi 52 \<le> y / 2 powi e" by (simp add: pow2_add field_simps)
  then have "of_int (2 ^ 52) \<le> y / 2 powi e" by simp
  then have "round_even (of_int (2 ^ 52)) \<le> round_even (y / 2 powi e)"
    by (rule round_even_mono)
  then have "2 ^ 52 \<le> round_even (y / 2 powi e)" by (simp only: round_even_of_int)
  then have "(of_int (2 ^ 52) :: rat) \<le> of_int (round_even (y / 2 powi e))"
    by (simp only: of_int_le_iff)
  then have "2 powi 52 * 2 powi e \<le> (of_int (round_even (y / 2 powi e)) :: rat) * 2 powi e"
    by simp
  then show ?thesis using assms by (simp add: rnd64_def e_def pow2_add mult.commute)
qed

lemma rnd64_mono_pos:
  assumes "0 < x" "x \<le> y"
  shows "rnd64 x \<le> rnd64 y"
proof (cases "ulp_exp x = ulp_exp y")
  case True
  have "x / 2 powi ulp_exp y \<le> y / 2 powi ulp_exp y"
    using assms by (simp add: divide_right_mono)
  then have "round_even (x / 2 powi ulp_exp y) \<le> round_even (y / 2 powi ulp_exp y)"
    by (rule round_even_mono)
  then have "(of_int (round_even (x / 2 powi ulp_exp y)) :: rat) * 2 powi ulp_exp y
      \<le> of_int (round_even (y / 2 powi ulp_exp y)) * 2 powi ulp_exp y"
    by simp
  then show ?thesis using assms True by (simp add: rnd64_def)
next
  case False
  with ulp_exp_mono[OF assms] have lt: "ulp_exp x < ulp_exp y" by simp
  have ypos: "0 < y" using assms by simp
  have "- 1074 < ulp_exp y" using lt ulp_exp_ge[of x] by simp
  from rnd64_normal_ge_pow[OF ypos this] have "2 powi (ulp_exp y + 52) \<le> rnd64 y" .
  moreover have "(2::rat) powi (ulp_exp x + 53) \<le> 2 powi (ulp_exp y + 52)"
    using lt by (simp add: pow2_le_iff)
  ultimately show ?thesis using rnd64_pos_le_pow[OF assms(1)] by linarith
qed

lemma rnd64_mono:
  assumes "0 \<le> x" "x \<le> y"
  shows "rnd64 x \<le> rnd64 y"
proof (cases "x = 0")
  case True
  then show ?thesis using rnd64_nonneg[of y] assms by simp
next
  case False
  with assms have "0 < x" by simp
  then show ?thesis using assms(2) by (rule rnd64_mono_pos)
qed


section \<open>Properties of HumanDuration\<close>

lemma tdiv_nonneg: "0 \<le> a \<Longrightarrow> 0 < b \<Longrightarrow> tdiv a b = a div b"
  by (cases "a = 0") (simp_all add: tdiv_def)

lemma tmod_nonneg: "0 \<le> a \<Longrightarrow> 0 < b \<Longrightarrow> tmod a b = a mod b"
  by (simp add: tmod_def tdiv_nonneg minus_mult_div_eq_mod)

lemma show_int_nonneg: "0 \<le> i \<Longrightarrow> show_int i = show_nat (nat i)"
  by (simp add: show_int_def)

lemma one_minus_ulp_exact: "rnd64 (1 - 1 / 2 ^ 30) = 1 - 1 / 2 ^ 30"
proof -
  have "rnd64 (of_int (2 ^ 30 - 1) * 2 powi (- 30)) = of_int (2 ^ 30 - 1) * 2 powi (- 30)"
    by (rule rnd64_exact_pos) simp_all
  moreover have "of_int (2 ^ 30 - 1) * 2 powi (- 30) = (1 - 1 / 2 ^ 30 :: rat)"
    by (simp add: power_int_minus_divide)
  ultimately show ?thesis by simp
qed

lemma frac_part_bounds:
  assumes "0 \<le> n" "n < 1000000000"
  shows "0 \<le> rnd64 (f64_of_int n / 1000000000)"
    and "rnd64 (f64_of_int n / 1000000000) \<le> 1 - 1 / 2 ^ 30"
proof -
  have n: "f64_of_int n = of_int n"
    unfolding f64_of_int_def using assms by (intro rnd64_of_int) simp_all
  have q0: "0 \<le> (of_int n :: rat) / 1000000000" using assms by simp
  then show "0 \<le> rnd64 (f64_of_int n / 1000000000)"
    unfolding n by (rule rnd64_nonneg)
  have "n \<le> 999999999" using assms by simp
  then have "(of_int n :: rat) \<le> of_int 999999999" by (simp only: of_int_le_iff)
  then have "(of_int n :: rat) / 1000000000 \<le> 1 - 1 / 2 ^ 30" by simp
  from rnd64_mono[OF q0 this] show "rnd64 (f64_of_int n / 1000000000) \<le> 1 - 1 / 2 ^ 30"
    unfolding n one_minus_ulp_exact .
qed

lemma whole_seconds_exact:
  assumes "0 \<le> d" "d < 2 ^ 23 * 1000000000"
  shows "whole_seconds d = d div 1000000000"
proof -
  define sec where "sec = d div 1000000000"
  define nsec where "nsec = d mod 1000000000"
  define b where "b = rnd64 (f64_of_int nsec / 1000000000)"
  have sec: "0 \<le> sec" "sec < 2 ^ 23"
    using assms by (simp_all add: sec_def div_less_iff_less_mult pos_imp_zdiv_nonneg_iff)
  have nsec: "0 \<le> nsec" "nsec < 1000000000" by (simp_all add: nsec_def)
  have b: "0 \<le> b" "b \<le> 1 - 1 / 2 ^ 30"
    unfolding b_def using frac_part_bounds[OF nsec] by blast+
  have fsec: "f64_of_int sec = of_int sec"
    unfolding f64_of_int_def using sec by (intro rnd64_of_int) simp_all
  have S: "Seconds d = rnd64 (of_int sec + b)"
    using assms by (simp add: Seconds_def Second_def tdiv_nonneg tmod_nonneg sec_def nsec_def
        b_def fsec [unfolded sec_def])
  have "rnd64 (of_int sec) \<le> rnd64 (of_int sec + b)"
    using sec b by (intro rnd64_mono) simp_all
  then have lo: "of_int sec \<le> rnd64 (of_int sec + b)"
    using fsec by (simp add: f64_of_int_def)
  define m where "m = (sec + 1) * 2 ^ 30 - 1"
  have m: "0 < m" "m < 2 ^ 53" using sec by (simp_all add: m_def)
  have top: "of_int m * 2 powi (- 30) = (of_int sec + (1 - 1 / 2 ^ 30) :: rat)"
    by (simp add: m_def power_int_minus_divide field_simps)
  have "rnd64 (of_int sec + b) \<le> rnd64 (of_int sec + (1 - 1 / 2 ^ 30))"
    using sec b by (intro rnd64_mono) simp_all
  also have "\<dots> = of_int sec + (1 - 1 / 2 ^ 30)"
    using rnd64_exact_pos[OF m, of "- 30"] unfolding top by simp
  finally have hi: "rnd64 (of_int sec + b) < of_int sec + 1" by simp
  have "\<lfloor>rnd64 (of_int sec + b)\<rfloor> = sec"
    using lo hi by (simp add: floor_unique)
  moreover have "0 \<le> rnd64 (of_int sec + b)" using lo sec by simp
  ultimately show ?thesis by (simp add: S whole_seconds_def int64_of_f64_def sec_def)
qed

lemma whole_seconds_ge:
  assumes "3600 * 1000000000 \<le> d"
  shows "3600 \<le> whole_seconds d"
proof -
  define sec where "sec = d div 1000000000"
  define nsec where "nsec = d mod 1000000000"
  define b where "b = rnd64 (f64_of_int nsec / 1000000000)"
  have d: "0 \<le> d" using assms by simp
  have "(3600 * 1000000000) div 1000000000 \<le> d div (1000000000 :: int)"
    using assms by (intro zdiv_mono1) simp_all
  then have sec: "3600 \<le> sec" by (simp add: sec_def)
  have nsec: "0 \<le> nsec" "nsec < 1000000000" by (simp_all add: nsec_def)
  have b: "0 \<le> b" unfolding b_def using frac_part_bounds[OF nsec] by blast
  have S: "Seconds d = rnd64 (f64_of_int sec + b)"
    using d by (simp add: Seconds_def Second_def tdiv_nonneg tmod_nonneg sec_def nsec_def b_def)
  have e: "rnd64 3600 = 3600"
    using rnd64_of_int[of 3600] by simp
  have "rnd64 (of_int 3600) \<le> rnd64 (of_int sec)"
    using sec by (intro rnd64_mono) simp_all
  then have "3600 \<le> f64_of_int sec" using e by (simp add: f64_of_int_def)
  then have "rnd64 3600 \<le> rnd64 (f64_of_int sec + b)"
    using b by (intro rnd64_mono) simp_all
  then have "3600 \<le> Seconds d" using e S by simp
  then have "3600 \<le> \<lfloor>Seconds d\<rfloor>" by (simp add: le_floor_iff)
  moreover have "0 \<le> Seconds d" using \<open>3600 \<le> Seconds d\<close> by simp
  ultimately show ?thesis by (simp add: whole_seconds_def int64_of_f64_def)
qed



lemma tenths_digit:
  fixes x :: int
  shows "(x mod 1000) div 100 = (x div 100) mod 10"
proof -
  have "x mod (100 * 10) = 100 * (x div 100 mod 10) + x mod 100"
    by (rule zmod_zmult2_eq) simp
  then have "(x mod 1000) div 100 = (x mod 100 + (x div 100 mod 10) * 100) div 100"
    by (simp add: ac_simps)
  also have "\<dots> = x div 100 mod 10 + (x mod 100) div 100"
    by simp
  finally show ?thesis by simp
qed

lemma round_even_minus: "round_even (- x) = - round_even x"
proof (cases "x = of_int \<lfloor>x\<rfloor>")
  case True
  then obtain n where "x = of_int n" ..
  then show ?thesis using round_even_of_int[of "- n"] by simp
next
  case False
  then have c: "\<lceil>x\<rceil> = \<lfloor>x\<rfloor> + 1" by (simp add: ceiling_altdef)
  have f: "\<lfloor>- x\<rfloor> = - \<lfloor>x\<rfloor> - 1" using c by (simp add: floor_minus)
  show ?thesis
    unfolding round_even_def Let_def f
    by (auto simp: algebra_simps)
qed

lemma rnd64_minus: "rnd64 (- x) = - rnd64 x"
  by (simp add: rnd64_def ulp_exp_def round_even_minus)

lemma tdiv_minus: "tdiv (- a) b = - tdiv a b"
  by (simp add: tdiv_def)

lemma tmod_minus: "tmod (- a) b = - tmod a b"
  by (simp add: tmod_def tdiv_minus)

lemma int64_of_f64_minus: "int64_of_f64 (- x) = - int64_of_f64 x"
  by (auto simp: int64_of_f64_def ceiling_def)

lemma Seconds_minus: "Seconds (- d) = - Seconds d"
proof -
  have "rnd64 (- f64_of_int (tdiv d Second) + - rnd64 (f64_of_int (tmod d Second) / 1000000000))
      = - rnd64 (f64_of_int (tdiv d Second) + rnd64 (f64_of_int (tmod d Second) / 1000000000))"
    using rnd64_minus[of "f64_of_int (tdiv d Second) + rnd64 (f64_of_int (tmod d Second) / 1000000000)"]
    by simp
  then show ?thesis
    by (simp add: Seconds_def tdiv_minus tmod_minus f64_of_int_def rnd64_minus Let_def)
qed

lemma whole_seconds_minus: "whole_seconds (- d) = - whole_seconds d"
  by (simp add: whole_seconds_def Seconds_minus int64_of_f64_minus)

lemma Seconds_nonneg:
  assumes "0 \<le> d"
  shows "0 \<le> Seconds d"
proof -
  have "0 \<le> d div 1000000000" "0 \<le> d mod 1000000000" using assms by simp_all
  then have "0 \<le> f64_of_int (d div 1000000000)" "0 \<le> f64_of_int (d mod 1000000000)"
    unfolding f64_of_int_def by (simp_all add: rnd64_nonneg)
  then have "0 \<le> f64_of_int (d div 1000000000)
      + rnd64 (f64_of_int (d mod 1000000000) / 1000000000)"
    by (simp add: rnd64_nonneg)
  then show ?thesis
    using assms by (simp add: Seconds_def Second_def tdiv_nonneg tmod_nonneg rnd64_nonneg)
qed

lemma whole_seconds_nonpos:
  assumes "d \<le> 0"
  shows "whole_seconds d \<le> 0"
proof -
  have "0 \<le> Seconds (- d)" using assms by (intro Seconds_nonneg) simp
  then have "0 \<le> whole_seconds (- d)" by (simp add: whole_seconds_def int64_of_f64_def)
  then show ?thesis by (simp add: whole_seconds_minus)
qed



lemma div_lower:
  fixes d :: int
  assumes "a * k \<le> d" "0 < k"
  shows "a \<le> d div k"
proof -
  have "(a * k) div k \<le> d div k" using assms by (intro zdiv_mono1)
  then show "a \<le> d div k" using assms(2) by simp
qed




lemma duration_hours:
  assumes "3600 * 1000000000 \<le> d"
  shows "HumanDuration d =
           show_nat (nat (whole_seconds d div 3600)) @ ''h '' @
           show_nat (nat ((whole_seconds d mod 3600) div 60)) @ ''m''"
proof -
  have b: "3600 \<le> whole_seconds d" using assms by (rule whole_seconds_ge)
  then have "0 \<le> whole_seconds d mod 3600" by simp
  then show ?thesis
    using b by (simp add: HumanDuration_def Let_def tdiv_nonneg tmod_nonneg show_int_nonneg)
qed



text \<open>
  C10.  For a negative duration whose whole-second count is not zero, that count is
  negative, hence below 60, and the seconds branch is taken: the count, a point, and
  the tenths \<open>millis/100\<close>, which is zero or negative (Go's \<open>%\<close> keeps the sign of the
  dividend).  So \<open>-90 s\<close> gives \<open>-90.0s\<close> and \<open>-5.5 s\<close> gives \<open>-5.-5s\<close>.
\<close>

theorem HumanDuration_negative:
  assumes "d < 0" "whole_seconds d \<noteq> 0"
  shows "whole_seconds d < 0 \<and>
         HumanDuration d =
           show_int (whole_seconds d) @ ''.'' @
           show_int (tdiv (tmod (Milliseconds d) 1000) 100) @ ''s'' \<and>
         tdiv (tmod (Milliseconds d) 1000) 100 = - (((- d) div 100000000) mod 10) \<and>
         (- (2 ^ 23 * 1000000000) < d \<longrightarrow> whole_seconds d = - ((- d) div 1000000000))"
proof (intro conjI impI)
  have "whole_seconds d \<le> 0" using assms(1) by (intro whole_seconds_nonpos) simp
  with assms(2) show neg: "whole_seconds d < 0" by simp
  then show "HumanDuration d =
           show_int (whole_seconds d) @ ''.'' @
           show_int (tdiv (tmod (Milliseconds d) 1000) 100) @ ''s''"
    by (simp add: HumanDuration_def)
  define a where "a = - d"
  have a: "0 < a" "d = - a" using assms(1) by (simp_all add: a_def)
  have "Milliseconds d = - (a div 1000000)"
    using a by (simp add: Milliseconds_def tdiv_minus tdiv_nonneg)
  moreover have "0 \<le> a div 1000000" using a by simp
  ultimately have "tdiv (tmod (Milliseconds d) 1000) 100 = - (((a div 1000000) mod 1000) div 100)"
    by (simp add: tmod_minus tdiv_minus tmod_nonneg tdiv_nonneg)
  also have "\<dots> = - ((a div 100000000) mod 10)"
    using tenths_digit[of "a div 1000000"] by (simp add: zdiv_zmult2_eq [symmetric])
  finally show "tdiv (tmod (Milliseconds d) 1000) 100 = - (((- d) div 100000000) mod 10)"
    by (simp add: a_def)
  show "whole_seconds d = - ((- d) div 1000000000)" if "- (2 ^ 23 * 1000000000) < d"
  proof -
    have "whole_seconds a = a div 1000000000"
      using a that by (intro whole_seconds_exact) simp_all
    then show ?thesis using whole_seconds_minus[of a] by (simp add: a)
  qed
qed

theorem HumanDuration_negative_witness:
  "HumanDuration (- 90000000000) = ''-90.0s'' \<and>
   HumanDuration (- 5500000000) = ''-5.-5s''"
proof -
  have w: "whole_seconds (- 90000000000) = - 90" "whole_seconds (- 5500000000) = - 5"
    using whole_seconds_exact[of 90000000000] whole_seconds_exact[of 5500000000]
      whole_seconds_minus[of 90000000000] whole_seconds_minus[of 5500000000]
    by simp_all
  show ?thesis
    using HumanDuration_negative[of "- 90000000000"] HumanDuration_negative[of "- 5500000000"] w
    by (simp add: show_int_def show_nat.simps digit_char_def)
qed


text \<open>
  In the hours band the whole-second count comes from \<open>float64\<close> arithmetic and is not
  always \<open>d div 10^9\<close>: for \<open>16777259.999999999 s\<close> the sum \<open>float64(sec) +
  float64(nsec)/1e9\<close> rounds up to \<open>16777260\<close>, and the minutes shown are 21, one more
  than the whole minutes of the duration.
\<close>

lemma whole_seconds_rounds_up:
  "whole_seconds 16777259999999999 = 16777260 \<and>
   (16777259999999999 :: int) div 1000000000 = 16777259"
  by code_simp

lemma HumanDuration_rounds_up: "HumanDuration 16777259999999999 = ''4660h 21m''"
  using duration_hours[of 16777259999999999] whole_seconds_rounds_up
  by (simp add: show_nat.simps digit_char_def)

section \<open>Properties of HumanSize\<close>












lemma f64_of_int_exact: "0 \<le> n \<Longrightarrow> n < 2 ^ 53 \<Longrightarrow> f64_of_int n = of_int n"
  unfolding f64_of_int_def by (rule rnd64_of_int)



lemma unit_values:
  "uint KB = 2 ^ 10" "uint MB = 2 ^ 20" "uint GB = 2 ^ 30" "uint TB = 2 ^ 40"
  by (simp_all add: KB_def MB_def GB_def TB_def)




section \<open>Properties of ParseSize\<close>

lemma byte_of_simps [simp]: "byte_of c = of_char c"
  by (simp add: byte_of_def)

lemma is_digit_not_special:
  assumes "is_digit c"
  shows "to_upper c = c" "\<not> is_space c" "c \<noteq> CHR ''_''" "c \<noteq> CHR ''.''" "c \<noteq> CHR ''+''"
    "c \<noteq> CHR ''-''" "c \<noteq> CHR ''x''" "c \<noteq> CHR ''X''" "c \<noteq> CHR ''i''" "c \<noteq> CHR ''I''"
    "c \<noteq> CHR ''n''" "c \<noteq> CHR ''N''" "c \<noteq> CHR ''B''" "c \<noteq> CHR ''T''" "c \<noteq> CHR ''G''"
    "c \<noteq> CHR ''M''" "c \<noteq> CHR ''K''" "ascii_lower c = c" "mantissa_char False c"
  using assms by (auto simp: is_digit_def to_upper_def is_space_def ascii_lower_def mantissa_char_def)

lemma not_digit_chars [simp]:
  "\<not> is_digit (CHR ''_'')" "\<not> is_digit (CHR ''.'')" "\<not> is_digit (CHR ''+'')"
  "\<not> is_digit (CHR ''-'')" "\<not> is_digit (CHR ''x'')" "\<not> is_digit (CHR ''X'')"
  "\<not> is_digit (CHR ''i'')" "\<not> is_digit (CHR ''I'')" "\<not> is_digit (CHR ''n'')"
  "\<not> is_digit (CHR ''N'')" "\<not> is_digit (CHR ''B'')" "\<not> is_digit (CHR ''T'')"
  "\<not> is_digit (CHR ''G'')" "\<not> is_digit (CHR ''M'')" "\<not> is_digit (CHR ''K'')"
  "\<not> is_digit (CHR ''e'')" "\<not> is_digit (CHR ''E'')"
  by (simp_all add: is_digit_def)

lemma ToUpper_digits: "list_all is_digit ds \<Longrightarrow> ToUpper ds = ds"
  by (induction ds) (simp_all add: ToUpper_def is_digit_not_special)

lemma ToUpper_append: "ToUpper (a @ b) = ToUpper a @ ToUpper b"
  by (simp add: ToUpper_def)

lemma TrimSpace_id:
  assumes "s \<noteq> []" "\<not> is_space (hd s)" "\<not> is_space (last s)"
  shows "TrimSpace s = s"
proof -
  have "dropWhile is_space s = s" using assms by (cases s) auto
  moreover have "dropWhile is_space (rev s) = rev s"
    using assms by (cases "rev s") (auto simp: hd_rev)
  ultimately show ?thesis by (simp add: TrimSpace_def)
qed

subsection \<open>Suffixes\<close>

lemma HasSuffix_append [simp]: "HasSuffix (n @ suf) suf"
  by (simp add: HasSuffix_def)

lemma TrimSuffix_append [simp]: "TrimSuffix (n @ suf) suf = n"
  by (simp add: TrimSuffix_def)

lemma HasSuffix_last:
  assumes "HasSuffix s suf" "suf \<noteq> []"
  shows "s \<noteq> [] \<and> last s = last suf"
proof -
  from assms have "drop (length s - length suf) s = suf" by (simp add: HasSuffix_def)
  then have "s = take (length s - length suf) s @ suf"
    by (metis append_take_drop_id)
  then show ?thesis using assms(2) by (metis last_appendR snoc_eq_iff_butlast append_is_Nil_conv)
qed

lemma drop_last: "n \<noteq> [] \<Longrightarrow> drop (length n - 1) n = [last n]"
  by (induction n) (auto simp: drop_Cons')

lemma HasSuffix_two:
  assumes "HasSuffix (n @ [c]) [a, b]"
  shows "n \<noteq> [] \<and> last n = a \<and> c = b"
proof -
  from assms have l: "2 \<le> length n + 1" and d: "drop (length n + 1 - 2) (n @ [c]) = [a, b]"
    by (simp_all add: HasSuffix_def)
  then have n: "n \<noteq> []" by auto
  have "length n + 1 - 2 = length n - 1" by simp
  with d have "drop (length n - 1) (n @ [c]) = [a, b]" by simp
  moreover have "drop (length n - 1) (n @ [c]) = drop (length n - 1) n @ [c]" by simp
  ultimately have "[last n, c] = [a, b]" using drop_last[OF n] by simp
  with n show ?thesis by simp
qed

lemma split_unit_plain:
  assumes "s = [] \<or> last s \<noteq> CHR ''B''"
  shows "split_unit s = (s, 1)"
  using assms HasSuffix_last[of s "''TB''"] HasSuffix_last[of s "''GB''"]
    HasSuffix_last[of s "''MB''"] HasSuffix_last[of s "''KB''"] HasSuffix_last[of s "''B''"]
  by (auto simp: split_unit_def)

lemma split_unit_B:
  assumes "n = [] \<or> last n \<notin> set ''TGMK''"
  shows "split_unit (n @ ''B'') = (n, 1)"
  using assms HasSuffix_two[of n "CHR ''B''" "CHR ''T''" "CHR ''B''"]
    HasSuffix_two[of n "CHR ''B''" "CHR ''G''" "CHR ''B''"]
    HasSuffix_two[of n "CHR ''B''" "CHR ''M''" "CHR ''B''"]
    HasSuffix_two[of n "CHR ''B''" "CHR ''K''" "CHR ''B''"]
  by (auto simp: split_unit_def)

lemma split_unit_two:
  "split_unit (n @ ''TB'') = (n, TB)"
  "split_unit (n @ ''GB'') = (n, GB)"
  "split_unit (n @ ''MB'') = (n, MB)"
  "split_unit (n @ ''KB'') = (n, KB)"
  by (simp_all add: split_unit_def) (simp_all add: HasSuffix_def)

subsection \<open>ParseFloat on decimal numerals\<close>

lemma digits_takeWhile:
  assumes "list_all is_digit ds"
  shows "takeWhile (mantissa_char False) ds = ds" "dropWhile (mantissa_char False) ds = []"
    "no_underscores ds = ds" "CHR ''_'' \<notin> set ds"
  using assms
  by (induction ds) (auto simp: is_digit_not_special(19) no_underscores_def)

lemma scan_mantissa_decimal:
  assumes "list_all is_digit ip" "list_all is_digit fp"
  shows "scan_mantissa False (decimal_numeral ip fp) = (ip, fp, [])"
proof (cases "fp = []")
  case True
  then show ?thesis
    using assms by (simp add: scan_mantissa_def decimal_numeral_def digits_takeWhile)
next
  case False
  have nd: "\<not> mantissa_char False (CHR ''.'')" by (simp add: mantissa_char_def is_digit_def)
  have "takeWhile (mantissa_char False) (ip @ CHR ''.'' # fp) = ip"
    using nd assms(1) by (simp add: takeWhile_tail digits_takeWhile)
  moreover have "dropWhile (mantissa_char False) (ip @ CHR ''.'' # fp) = CHR ''.'' # fp"
    using nd assms(1) by (simp add: dropWhile_append3 digits_takeWhile)
  ultimately show ?thesis
    using False assms(2) by (simp add: scan_mantissa_def decimal_numeral_def digits_takeWhile)
qed

lemma hex_prefix_decimal:
  assumes "list_all is_digit ip" "list_all is_digit fp"
  shows "\<not> hex_prefix (decimal_numeral ip fp)"
proof -
  have all: "list_all (\<lambda>c. c \<noteq> CHR ''x'' \<and> c \<noteq> CHR ''X'') (decimal_numeral ip fp)"
    using assms by (auto simp: decimal_numeral_def list_all_iff)
  show ?thesis
  proof (cases "decimal_numeral ip fp")
    case Nil
    then show ?thesis by (simp add: hex_prefix_def)
  next
    case (Cons c0 t)
    then show ?thesis using all by (cases t) (auto simp: hex_prefix_def split: list.splits)
  qed
qed

lemma decimal_numeral_hd:
  assumes "list_all is_digit ip" "ip \<noteq> []"
  shows "decimal_numeral ip fp = hd ip # tl (decimal_numeral ip fp)" "is_digit (hd ip)"
  using assms by (cases ip; simp add: decimal_numeral_def)+

lemma readFloat_decimal:
  assumes "list_all is_digit ip" "list_all is_digit fp" "ip \<noteq> []"
  shows "readFloat (decimal_numeral ip fp)
           = Some (False, decimal_value ip fp, length (decimal_numeral ip fp))"
proof -
  define s where "s = decimal_numeral ip fp"
  obtain t where s: "s = hd ip # t" and d: "is_digit (hd ip)"
    using decimal_numeral_hd[OF assms(1,3)] unfolding s_def by blast
  have sign: "strip_sign s = s" "(case s of c # _ \<Rightarrow> c = CHR ''-'' | [] \<Rightarrow> False) = False"
    using d by (simp_all add: s strip_sign_def is_digit_not_special)
  have hex: "hex_prefix s = False"
    unfolding s_def using hex_prefix_decimal[OF assms(1,2)] by simp
  have scan: "scan_mantissa False s = (ip, fp, [])"
    unfolding s_def by (rule scan_mantissa_decimal[OF assms(1,2)])
  have p: "(10::rat) powi (- int (length fp)) = 1 / 10 ^ length fp"
    by (simp add: power_int_minus_divide)
  have "readFloat s = Some (False, decimal_value ip fp, length s)"
    using assms
    by (simp add: readFloat_def Let_def sign hex scan read_exponent_def digits_takeWhile
        decimal_value_def p)
  then show ?thesis by (simp add: s_def)
qed

lemma special_digit:
  assumes "is_digit c"
  shows "special (c # t) = None" "special (CHR ''-'' # c # t) = None"
  using assms is_digit_not_special[OF assms]
  by (auto simp: special_def inf_prefix_def)

lemma ParseFloat_decimal:
  assumes "list_all is_digit ip" "list_all is_digit fp" "ip \<noteq> []"
  shows "ParseFloat (decimal_numeral ip fp) =
           (if 2 ^ 1024 \<le> rnd64 (decimal_value ip fp) then Inl ErrRange
            else Inr (Finite (rnd64 (decimal_value ip fp))))"
proof -
  obtain t where s: "decimal_numeral ip fp = hd ip # t" and d: "is_digit (hd ip)"
    using decimal_numeral_hd[OF assms(1,3)] by blast
  have "special (decimal_numeral ip fp) = None"
    unfolding s using d by (rule special_digit)
  then show ?thesis
    by (simp add: ParseFloat_def readFloat_decimal[OF assms])
qed



lemma digit_value_bounds: "is_digit c \<Longrightarrow> 0 \<le> digit_value c \<and> digit_value c \<le> 9"
  by (auto simp: digit_value_def is_digit_def)

lemma foldl_digits_nonneg:
  assumes "list_all is_digit ds" "0 \<le> acc"
  shows "0 \<le> foldl (\<lambda>acc c. acc * 10 + digit_value c) acc ds"
  using assms
proof (induction ds arbitrary: acc)
  case Nil
  then show ?case by simp
next
  case (Cons c ds)
  then have "0 \<le> acc * 10 + digit_value c" using digit_value_bounds[of c] by simp
  with Cons show ?case by simp
qed

lemma decimal_value_nonneg:
  assumes "list_all is_digit ip" "list_all is_digit fp"
  shows "0 \<le> decimal_value ip fp"
proof -
  have "0 \<le> digits_value 10 (ip @ fp)"
    unfolding digits_value_def using assms by (intro foldl_digits_nonneg) simp_all
  then show ?thesis by (simp add: decimal_value_def)
qed

subsection \<open>ParseSize on the size grammar\<close>

lemma decimal_numeral_last:
  assumes "list_all is_digit ip" "list_all is_digit fp" "ip \<noteq> []"
  shows "decimal_numeral ip fp \<noteq> []" "is_digit (last (decimal_numeral ip fp))"
    "is_digit (hd (decimal_numeral ip fp))"
  using assms by (auto simp: decimal_numeral_def list_all_iff)

lemma ToUpper_decimal:
  assumes "list_all is_digit ip" "list_all is_digit fp"
  shows "ToUpper (decimal_numeral ip fp) = decimal_numeral ip fp"
proof -
  have "to_upper (CHR ''.'') = CHR ''.''" by (simp add: to_upper_def)
  then show ?thesis
    using ToUpper_digits[OF assms(1)] ToUpper_digits[OF assms(2)]
    by (simp add: decimal_numeral_def ToUpper_def)
qed

lemma unit_cases:
  assumes "unit_multiplier U = Some m"
  obtains "U = []" "m = 1" | "U = ''B''" "m = 1" | "U = ''KB''" "m = KB" | "U = ''MB''" "m = MB"
    | "U = ''GB''" "m = GB" | "U = ''TB''" "m = TB"
  using assms by (auto simp: unit_multiplier_def split: if_splits)

lemma split_unit_decimal:
  assumes "n \<noteq> []" "is_digit (last n)" "unit_multiplier U = Some m"
  shows "split_unit (n @ U) = (n, m)"
  using assms(3)
proof (cases rule: unit_cases)
  case 1
  have "last n \<noteq> CHR ''B''" using assms(2) by (rule is_digit_not_special)
  then show ?thesis using 1 by (simp add: split_unit_plain)
next
  case 2
  have "last n \<notin> set ''TGMK''" using is_digit_not_special[OF assms(2)] by simp
  then show ?thesis using 2 by (simp add: split_unit_B)
qed (simp_all add: split_unit_two)

lemma TrimSpace_numeral_unit:
  assumes "n \<noteq> []" "is_digit (hd n)" "is_digit (last n)" "unit_multiplier U = Some m"
  shows "TrimSpace (n @ U) = n @ U" "TrimSpace n = n"
proof -
  have sp: "\<not> is_space (hd n)" "\<not> is_space (last n)"
    using assms(2,3) by (simp_all add: is_digit_not_special)
  then show "TrimSpace n = n" using assms(1) by (intro TrimSpace_id)
  have "\<not> is_space (last (n @ U))"
    using assms(4) sp(2) assms(1) by (cases rule: unit_cases) (simp_all add: is_space_def)
  then show "TrimSpace (n @ U) = n @ U"
    using assms(1) sp(1) by (intro TrimSpace_id) simp_all
qed

lemma ParseSize_decimal:
  assumes "list_all is_digit ip" "list_all is_digit fp" "ip \<noteq> []"
    and "unit_multiplier (ToUpper u) = Some m"
  shows "ParseSize (decimal_numeral ip fp @ u) =
           (if 2 ^ 1024 \<le> rnd64 (decimal_value ip fp)
            then Inl (InvalidNumber (decimal_numeral ip fp))
            else Inr (uint64_of_f64
                   (f64_mul (Finite (rnd64 (decimal_value ip fp))) (f64_of_uint64 m))))"
proof -
  define n where "n = decimal_numeral ip fp"
  note nl = decimal_numeral_last[OF assms(1-3), folded n_def]
  have up: "ToUpper (n @ u) = n @ ToUpper u"
    by (simp add: ToUpper_append n_def ToUpper_decimal[OF assms(1,2)])
  have trim: "TrimSpace (n @ ToUpper u) = n @ ToUpper u" "TrimSpace n = n"
    using TrimSpace_numeral_unit[OF nl(1,3,2) assms(4)] by simp_all
  have split: "split_unit (n @ ToUpper u) = (n, m)"
    using nl assms(4) by (intro split_unit_decimal)
  have nonneg: "\<not> f64_negative (Finite (rnd64 (decimal_value ip fp)))"
  proof -
    have "0 \<le> decimal_value ip fp" using assms(1,2) by (rule decimal_value_nonneg)
    then have "0 \<le> rnd64 (decimal_value ip fp)" by (rule rnd64_nonneg)
    then show ?thesis by (simp add: f64_negative_def not_less)
  qed
  show ?thesis
    unfolding n_def[symmetric]
    using nl(1) nonneg
    by (simp add: ParseSize_def up trim split ParseFloat_decimal[OF assms(1-3), folded n_def])
qed

lemma round_even_nonneg: "0 \<le> x \<Longrightarrow> 0 \<le> round_even x"
  using round_even_mono[of 0 x] round_even_of_int[of 0] by simp

lemma rnd64_representable:
  assumes "0 < x"
  shows "\<exists>m e. 0 \<le> m \<and> m < 2 ^ 53 \<and> - 1074 \<le> e \<and> rnd64 x = of_int m * 2 powi e"
proof -
  define e where "e = ulp_exp x"
  define m where "m = round_even (x / 2 powi e)"
  have r: "rnd64 x = of_int m * 2 powi e" using assms by (simp add: rnd64_def m_def e_def)
  have e: "- 1074 \<le> e" by (simp add: e_def ulp_exp_ge)
  have m0: "0 \<le> m" unfolding m_def using assms by (intro round_even_nonneg) simp
  have "rnd64 x \<le> 2 powi (e + 53)" unfolding e_def using assms by (rule rnd64_pos_le_pow)
  then have "of_int m * 2 powi e \<le> (2::rat) powi 53 * 2 powi e" by (simp add: r pow2_add mult.commute)
  then have "(of_int m :: rat) \<le> 2 powi 53" by simp
  then have "(of_int m :: rat) \<le> of_int (2 ^ 53)" by simp
  then have m53: "m \<le> 2 ^ 53" by (simp only: of_int_le_iff)
  show ?thesis
  proof (cases "m = 2 ^ 53")
    case True
    have "rnd64 x = of_int (2 ^ 52) * 2 powi (e + 1)"
      by (simp add: r True pow2_add)
    moreover have "(0::int) \<le> 2 ^ 52" "(2::int) ^ 52 < 2 ^ 53" "- 1074 \<le> e + 1" using e by simp_all
    ultimately show ?thesis by blast
  next
    case False
    with m53 have "m < 2 ^ 53" by simp
    with m0 e r show ?thesis by blast
  qed
qed

lemma rnd64_scale:
  assumes "0 \<le> x" "0 \<le> k"
  shows "rnd64 (rnd64 x * 2 powi k) = rnd64 x * 2 powi k"
proof (cases "x = 0")
  case True
  then show ?thesis by simp
next
  case False
  then have "0 < x" using assms(1) by simp
  then obtain m e where me: "0 \<le> m" "m < 2 ^ 53" "- 1074 \<le> e" "rnd64 x = of_int m * 2 powi e"
    using rnd64_representable by blast
  show ?thesis
  proof (cases "m = 0")
    case True
    then show ?thesis using me(4) by simp
  next
    case False
    then have "0 < m" using me(1) by simp
    moreover have "- 1074 \<le> e + k" using me(3) assms(2) by simp
    ultimately have "rnd64 (of_int m * 2 powi (e + k)) = of_int m * 2 powi (e + k)"
      using me(2) by (intro rnd64_exact_pos)
    then show ?thesis by (simp add: me(4) pow2_add mult.assoc)
  qed
qed

lemma unit_float:
  assumes "unit_multiplier U = Some m"
  shows "\<exists>k. 0 \<le> k \<and> f64_of_uint64 m = 2 powi k \<and> (of_int (uint m) :: rat) = 2 powi k"
proof -
  have e: "f64_of_int (2 ^ j) = 2 ^ j" if "j \<le> 52" for j
  proof -
    have "(2::int) ^ j < 2 ^ 53" using that by (intro power_strict_increasing) simp_all
    then show ?thesis using f64_of_int_exact[of "2 ^ j"] by simp
  qed
  have p: "(2::rat) ^ j = 2 powi int j" for j by simp
  from assms show ?thesis
  proof (cases rule: unit_cases)
    case 1
    then show ?thesis using e[of 0] by (intro exI[of _ 0]) (simp add: f64_of_uint64_def)
  next
    case 2
    then show ?thesis using e[of 0] by (intro exI[of _ 0]) (simp add: f64_of_uint64_def)
  next
    case 3
    then show ?thesis using e[of 10]
      by (intro exI[of _ 10]) (simp add: f64_of_uint64_def unit_values)
  next
    case 4
    then show ?thesis using e[of 20]
      by (intro exI[of _ 20]) (simp add: f64_of_uint64_def unit_values)
  next
    case 5
    then show ?thesis using e[of 30]
      by (intro exI[of _ 30]) (simp add: f64_of_uint64_def unit_values)
  next
    case 6
    then show ?thesis using e[of 40]
      by (intro exI[of _ 40]) (simp add: f64_of_uint64_def unit_values)
  qed
qed

lemma ParseSize_decimal_in_range:
  assumes "list_all is_digit ip" "list_all is_digit fp" "ip \<noteq> []"
    and "unit_multiplier (ToUpper u) = Some m"
    and "rnd64 (decimal_value ip fp) * of_int (uint m) < 2 ^ 64"
  shows "ParseSize (decimal_numeral ip fp @ u) =
           Inr (Exact (word_of_int \<lfloor>rnd64 (decimal_value ip fp) * of_int (uint m)\<rfloor>))"
proof -
  define x where "x = rnd64 (decimal_value ip fp)"
  obtain k where k: "0 \<le> k" "f64_of_uint64 m = 2 powi k" "(of_int (uint m) :: rat) = 2 powi k"
    using unit_float[OF assms(4)] by blast
  have v: "0 \<le> decimal_value ip fp" using assms(1,2) by (rule decimal_value_nonneg)
  then have x0: "0 \<le> x" unfolding x_def by (rule rnd64_nonneg)
  have xk: "x * 2 powi k < 2 ^ 64" using assms(5) unfolding k(3) x_def .
  have "x * 1 \<le> x * 2 powi k"
    using x0 k(1) power_int_increasing[of 0 k "2::rat"] by (intro mult_left_mono) simp_all
  then have "x < 2 ^ 1024" using xk by (simp add: order.strict_trans1 less_trans[of _ "2 ^ 64"])
  then have nov: "\<not> 2 ^ 1024 \<le> x" by simp
  have sc: "rnd64 (x * 2 powi k) = x * 2 powi k"
    unfolding x_def using v k(1) by (rule rnd64_scale)
  have fl: "0 \<le> \<lfloor>x * 2 powi k\<rfloor>" "\<lfloor>x * 2 powi k\<rfloor> < 2 ^ 64"
    using x0 xk by (simp_all add: floor_less_iff)
  have pos: "0 \<le> x * 2 powi k" using x0 by simp
  have "f64_mul (Finite x) (f64_of_uint64 m) = Finite (x * 2 powi k)"
    using xk pos by (simp add: f64_mul_def k(2) sc Let_def not_le less_trans[of _ "2 ^ 64"])
  moreover have "uint64_of_f64 (Finite (x * 2 powi k)) = Exact (word_of_int \<lfloor>x * 2 powi k\<rfloor>)"
    using fl x0 by (simp add: uint64_of_f64_def int64_of_f64_def)
  ultimately have "ParseSize (decimal_numeral ip fp @ u) =
      Inr (Exact (word_of_int \<lfloor>x * 2 powi k\<rfloor>))"
    using ParseSize_decimal[OF assms(1-4)] nov by (simp add: x_def)
  then show ?thesis unfolding k(3) x_def .
qed

text \<open>
  C1, as the code has it.  For a size string made of a decimal numeral (digits, and
  optionally a point and more digits) and a unit suffix in any case, none meaning
  bytes: when the float64 nearest to the number, times the multiplier, is below
  \<open>2^64\<close>, the result is that product with its fraction discarded.  So \<open>100MB\<close> gives
  104857600, \<open>1.5GB\<close> gives 1610612736 and \<open>1kb\<close> gives 1024.
\<close>

theorem ParseSize_truncates:
  assumes "list_all is_digit ip" "list_all is_digit fp" "ip \<noteq> []"
    and "unit_multiplier (ToUpper u) = Some m"
    and "rnd64 (decimal_value ip fp) * of_int (uint m) < 2 ^ 64"
  shows "ParseSize (decimal_numeral ip fp @ u) =
           Inr (Exact (word_of_int \<lfloor>rnd64 (decimal_value ip fp) * of_int (uint m)\<rfloor>))"
  using assms by (rule ParseSize_decimal_in_range)

lemma digit_chars [simp]:
  "is_digit (CHR ''0'')" "is_digit (CHR ''1'')" "is_digit (CHR ''2'')" "is_digit (CHR ''3'')"
  "is_digit (CHR ''4'')" "is_digit (CHR ''5'')" "is_digit (CHR ''6'')" "is_digit (CHR ''7'')"
  "is_digit (CHR ''8'')" "is_digit (CHR ''9'')"
  by (simp_all add: is_digit_def)

lemma decimal_values:
  "decimal_value ''100'' [] = 100" "decimal_value ''1'' ''5'' = 3 / 2"
  "decimal_value ''1'' ''75'' = 7 / 4" "decimal_value ''1'' [] = 1"
  by (simp_all add: decimal_value_def digits_value_def digit_value_def is_digit_def)

lemma rnd64_literals:
  "rnd64 100 = 100" "rnd64 (3 / 2) = 3 / 2" "rnd64 (7 / 4) = 7 / 4" "rnd64 1 = 1"
  by code_simp+

lemma units_literals:
  "unit_multiplier (ToUpper ''MB'') = Some MB" "unit_multiplier (ToUpper ''GB'') = Some GB"
  "unit_multiplier (ToUpper ''B'') = Some 1"
  by (simp_all add: unit_multiplier_def ToUpper_def to_upper_def)

lemma lower_case_unit: "ToUpper ''kb'' = ''KB''"
  by code_simp

theorem ParseSize_truncates_witness:
  "ParseSize ''100MB'' = Inr (Exact 104857600) \<and> ParseSize ''1.5GB'' = Inr (Exact 1610612736) \<and>
   ParseSize ''1kb'' = Inr (Exact 1024)"
proof -
  have c: "ParseSize (decimal_numeral ''1'' [] @ ''kb'') = Inr (Exact 1024)"
    using ParseSize_truncates[of "''1''" "[]" "''kb''" KB]
    by (simp add: decimal_values rnd64_literals lower_case_unit unit_multiplier_def unit_values)
  have a: "ParseSize (decimal_numeral ''100'' [] @ ''MB'') = Inr (Exact 104857600)"
    using ParseSize_truncates[of "''100''" "[]" "''MB''" MB]
    by (simp add: decimal_values rnd64_literals units_literals unit_values)
  have b: "ParseSize (decimal_numeral ''1'' ''5'' @ ''GB'') = Inr (Exact 1610612736)"
    using ParseSize_truncates[of "''1''" "''5''" "''GB''" GB]
    by (simp add: decimal_values rnd64_literals units_literals unit_values)
  from a b c show ?thesis by (simp add: decimal_numeral_def)
qed

lemma floor_seven_quarters: "\<lfloor>7 / 4 :: rat\<rfloor> = 1"
  by (rule floor_unique) simp_all

text \<open>
  C1 as stated fails: the conversion to \<open>uint64\<close> truncates, it does not round.  The
  number 1.75 is a float64, 1.75 times the multiplier 1 rounds to 2, and \<open>ParseSize\<close>
  returns 1.
\<close>

theorem ParseSize_does_not_round:
  "ParseSize ''1.75B'' = Inr (Exact 1) \<and> round (7 / 4 * 1 :: rat) = 2 \<and>
   decimal_value ''1'' ''75'' = 7 / 4"
proof -
  have "ParseSize (decimal_numeral ''1'' ''75'' @ ''B'') = Inr (Exact 1)"
    using ParseSize_decimal_in_range[of "''1''" "''75''" "''B''" 1]
    by (simp add: decimal_values rnd64_literals units_literals floor_seven_quarters)
  moreover have "round (7 / 4 * 1 :: rat) = 2"
    unfolding round_def by (rule floor_unique) simp_all
  ultimately show ?thesis by (simp add: decimal_numeral_def decimal_values)
qed












lemma TrimSpace_Nil [simp]: "TrimSpace [] = []"
  by (simp add: TrimSpace_def)













text \<open>
  The spellings of NaN and infinity pass \<open>ParseFloat\<close> and are not below zero, so
  \<open>ParseSize\<close> returns no error for them, and the value of the conversion is
  implementation-dependent.
\<close>

lemma ParseSize_nan: "ParseSize ''nan'' = Inr ImplementationDependent"
  by code_simp

lemma ParseSize_inf: "ParseSize ''inf'' = Inr ImplementationDependent"
  by code_simp

end
